theory Spec2Isabelle
  imports Main "HOL-Library.Word" "HOL-Library.Monad_Syntax"
begin

unbundle bit_operations_syntax

section \<open>Data model of the testbench (src/sim/tb_top.cpp, src/sim/riscv_ref.h)\<close>

type_synonym u8 = "8 word"
type_synonym u32 = "32 word"
type_synonym u64 = "64 word"

text \<open>A C++ \<^verbatim>\<open>int\<close>: 32 bits, read as a signed number by \<open>sint\<close>. C++ leaves signed
  overflow undefined; \<open>+\<close> on words wraps around, as two's-complement machine
  arithmetic does, so \<^verbatim>\<open>x++\<close> at 2147483647 gives -2147483648.\<close>
type_synonym int32 = "32 word"

abbreviation INT_MAX :: int where
  "INT_MAX \<equiv> 2147483647"

text \<open>A pointer value. The only heap buffer of the testbench is the byte array
  allocated by the constructor; a pointer is bound to it iff it equals its address.\<close>
type_synonym addr = nat

text \<open>\<^verbatim>\<open>#define MEM_SIZE (4 * 1024)\<close>\<close>
abbreviation MEM_SIZE :: nat where
  "MEM_SIZE \<equiv> 4 * 1024"

text \<open>\<^verbatim>\<open>typedef struct { ... } RiscvCpu;\<close> of riscv_ref.h. The field \<open>mem\<close> is a
  pointer; the bytes it points to live in the testbench (\<open>ref_mem\<close> below).\<close>
record RiscvCpu =
  pc :: u32
  regs :: "u32 list"
  mem :: addr
  mem_size :: u32
  halted :: bool

text \<open>The internal signals of the hardware model that the testbench peeks and pokes
  through \<^verbatim>\<open>rtl->rootp\<close>. The generated header that declares them is not among the
  sources; the arrays are lists, and their sizes (32, 1024, 1024, the bounds of the
  testbench's own loops) are the well-formedness condition \<open>root_wf\<close>.\<close>
record Vcpu_top_root =
  cpu_top_pc :: u32
  regfile_registers :: "u32 list"
  dmem_mem :: "u32 list"
  imem_mem :: "u32 list"

text \<open>The hardware model object: its two input ports and its internals.\<close>
record Vcpu_top =
  clk :: bool
  rst :: bool
  rootp :: Vcpu_top_root

definition root_wf :: "Vcpu_top_root \<Rightarrow> bool" where
  "root_wf r \<longleftrightarrow>
     length (regfile_registers r) = 32 \<and> length (dmem_mem r) = 1024 \<and>
     length (imem_mem r) = 1024"

text \<open>Everything the testbench does that is visible outside it, in the order it
  happens: the calls it makes into the two models and into the waveform writer, and
  the lines it prints. Numbers in printed lines are kept as values, not rendered.\<close>
datatype event =
    RtlEval bool bool              \<comment> \<open>\<^verbatim>\<open>rtl->eval()\<close> with the inputs clk and rst\<close>
  | VcdDump u64                    \<comment> \<open>\<^verbatim>\<open>trace->dump(t)\<close>\<close>
  | RefInit                        \<comment> \<open>\<^verbatim>\<open>riscv_init\<close>\<close>
  | RefStep                        \<comment> \<open>\<^verbatim>\<open>riscv_step\<close>\<close>
  | RefGetPc                       \<comment> \<open>\<^verbatim>\<open>riscv_get_pc\<close>\<close>
  | RefGetReg nat                  \<comment> \<open>\<^verbatim>\<open>riscv_get_reg\<close>\<close>
  | ErrPcMismatch u32 u32          \<comment> \<open>stderr: PC MISMATCH: RTL=.. REF=..\<close>
  | ErrRegMismatch nat u32 u32     \<comment> \<open>stderr: REG xi MISMATCH: RTL=.. REF=..\<close>
  | ErrMismatchAtCycle int         \<comment> \<open>stderr: Mismatch at cycle i\<close>
  | OutStateHeader                 \<comment> \<open>stdout: === CPU State ===\<close>
  | OutStatePc u32 u32             \<comment> \<open>stdout: PC: RTL=.. REF=..\<close>
  | OutStateRegsHeader             \<comment> \<open>stdout: Registers (non-zero):\<close>
  | OutStateReg nat u32 u32 bool   \<comment> \<open>stdout: xi: RTL=.. REF=.. [MISMATCH!]\<close>
  | OutRunning string              \<comment> \<open>stdout: ===== Running Test: name =====\<close>
  | OutPass string                 \<comment> \<open>stdout: PASS: name\<close>
  | OutFail string                 \<comment> \<open>stdout: FAIL: name\<close>
  | OutLine string                 \<comment> \<open>stdout: a fixed line of main\<close>
  | OutCount string int            \<comment> \<open>stdout: a summary line with a counter\<close>

text \<open>\<^verbatim>\<open>class Testbench\<close>. \<open>ref_mem_ptr\<close> is the pointer \<^verbatim>\<open>ref_mem\<close>, \<open>ref_mem\<close> the
  bytes it points to; \<open>trace\<close> is whether the trace pointer is non-null. The three
  counters are C++ \<^verbatim>\<open>int\<close>s, hence 32-bit words.\<close>
record Testbench =
  rtl :: Vcpu_top
  ref :: RiscvCpu
  trace :: bool
  sim_time :: u64
  ref_mem_ptr :: addr
  ref_mem :: "u8 list"
  tests_passed :: int32
  tests_failed :: int32
  cycles_run :: int32
  events :: "event list"

definition tb_wf :: "Testbench \<Rightarrow> bool" where
  "tb_wf tb \<longleftrightarrow> root_wf (rootp (rtl tb)) \<and> length (ref_mem tb) = MEM_SIZE"

text \<open>A write \<^verbatim>\<open>a[i] = v\<close> into a C array. Outside the array the behaviour of the
  C++ program is undefined: the model stops with \<open>None\<close>.\<close>
definition array_set :: "'a list \<Rightarrow> nat \<Rightarrow> 'a \<Rightarrow> 'a list option" where
  "array_set a i v = (if i < length a then Some (a[i := v]) else None)"

definition emit :: "event \<Rightarrow> Testbench \<Rightarrow> Testbench" where
  "emit e tb = tb\<lparr>events := events tb @ [e]\<rparr>"

section \<open>Testbench::loadProgram\<close>

text \<open>First loop: the program into the reference model's memory, byte by byte.\<close>
function loadProgram_ref :: "u32 list \<Rightarrow> nat \<Rightarrow> u8 list \<Rightarrow> u8 list option" where
  "loadProgram_ref program i m =
     (if i < length program \<and> i * 4 < MEM_SIZE then
        (let instr = program ! i in
         array_set m (i * 4 + 0) (ucast (drop_bit 0 instr AND 0xFF)) \<bind> (\<lambda>m.
         array_set m (i * 4 + 1) (ucast (drop_bit 8 instr AND 0xFF)) \<bind> (\<lambda>m.
         array_set m (i * 4 + 2) (ucast (drop_bit 16 instr AND 0xFF)) \<bind> (\<lambda>m.
         array_set m (i * 4 + 3) (ucast (drop_bit 24 instr AND 0xFF)) \<bind> (\<lambda>m.
         loadProgram_ref program (i + 1) m)))))
      else Some m)"
  by pat_completeness auto
termination
  by (relation "measure (\<lambda>(program, i, m). length program - i)") auto

text \<open>Second loop: the program into the hardware instruction memory.\<close>
function loadProgram_rtl :: "u32 list \<Rightarrow> nat \<Rightarrow> u32 list \<Rightarrow> u32 list option" where
  "loadProgram_rtl program i im =
     (if i < length program \<and> i < 1024 then
        array_set im i (program ! i) \<bind> (\<lambda>im. loadProgram_rtl program (i + 1) im)
      else Some im)"
  by pat_completeness auto
termination
  by (relation "measure (\<lambda>(program, i, im). length program - i)") auto

text \<open>Third loop: NOPs from the end of the program to word 1024, hardware only.\<close>
function loadProgram_nops :: "nat \<Rightarrow> u32 list \<Rightarrow> u32 list option" where
  "loadProgram_nops i im =
     (if i < 1024 then
        array_set im i 0x00000013 \<bind> (\<lambda>im. loadProgram_nops (i + 1) im)
      else Some im)"
  by pat_completeness auto
termination
  by (relation "measure (\<lambda>(i, im). 1024 - i)") auto

definition loadProgram :: "u32 list \<Rightarrow> Testbench \<Rightarrow> Testbench option" where
  "loadProgram program tb =
     loadProgram_ref program 0 (ref_mem tb) \<bind> (\<lambda>m.
     loadProgram_rtl program 0 (imem_mem (rootp (rtl tb))) \<bind> (\<lambda>im.
     loadProgram_nops (length program) im \<bind> (\<lambda>im.
     Some (tb\<lparr>ref_mem := m,
              rtl := (rtl tb)\<lparr>rootp := (rootp (rtl tb))\<lparr>imem_mem := im\<rparr>\<rparr>\<rparr>))))"

section \<open>The reference model's C interface (riscv_ref.h)\<close>

text \<open>Modelled from the spec: the function \<^verbatim>\<open>riscv_init\<close> is declared in riscv_ref.h
  and implemented by the reference model, which is not among the sources. The spec:
  "\<open>initialize(memory, capacity)\<close> resets ArchitecturalState to zero and binds the
  memory buffer", the zero state being "PC=0, all registers=0, halted=false".\<close>
definition riscv_init :: "RiscvCpu \<Rightarrow> addr \<Rightarrow> u32 \<Rightarrow> RiscvCpu" where
  "riscv_init cpu m sz =
     cpu\<lparr>pc := 0, regs := replicate 32 0, mem := m, mem_size := sz, halted := False\<rparr>"

text \<open>Modelled from the spec: \<^verbatim>\<open>riscv_get_pc\<close>, implemented by the absent reference
  model; "\<open>getPC()\<close> ... expose read/write access".\<close>
definition riscv_get_pc :: "RiscvCpu \<Rightarrow> u32" where
  "riscv_get_pc cpu = pc cpu"

text \<open>Modelled from the spec: \<^verbatim>\<open>riscv_get_reg\<close>, implemented by the absent reference
  model; "register 0 reads always returning zero". The spec does not say what an
  index above 31 reads; no caller in the testbench passes one.\<close>
definition riscv_get_reg :: "RiscvCpu \<Rightarrow> nat \<Rightarrow> u32" where
  "riscv_get_reg cpu reg = (if reg = 0 then 0 else regs cpu ! reg)"

text \<open>Modelled from the spec: \<^verbatim>\<open>riscv_set_reg\<close>, implemented by the absent reference
  model; "writes to register 0 being silently discarded". The spec does not say
  what an index above 31 writes; the testbench never calls this function.\<close>
definition riscv_set_reg :: "RiscvCpu \<Rightarrow> nat \<Rightarrow> u32 \<Rightarrow> RiscvCpu" where
  "riscv_set_reg cpu reg v = (if reg = 0 then cpu else cpu\<lparr>regs := (regs cpu)[reg := v]\<rparr>)"

text \<open>The two models themselves are parameters of the testbench functions below:
  \<open>eval\<close> is \<^verbatim>\<open>Vcpu_top::eval\<close>, which reads the input ports and updates the
  internals; \<open>step\<close> is \<^verbatim>\<open>riscv_step\<close>, which updates the processor state and the
  bytes its \<open>mem\<close> pointer is bound to (from the constructor on, the testbench's
  buffer). In C++ neither can resize an array, which is \<open>eval_ok\<close> and \<open>step_ok\<close>.\<close>
type_synonym rtl_eval = "bool \<Rightarrow> bool \<Rightarrow> Vcpu_top_root \<Rightarrow> Vcpu_top_root"
type_synonym ref_step = "RiscvCpu \<Rightarrow> u8 list \<Rightarrow> RiscvCpu \<times> u8 list"

definition eval_ok :: "rtl_eval \<Rightarrow> bool" where
  "eval_ok eval \<longleftrightarrow> (\<forall>c r s. root_wf s \<longrightarrow> root_wf (eval c r s))"

definition step_ok :: "ref_step \<Rightarrow> bool" where
  "step_ok step \<longleftrightarrow> (\<forall>cpu m. length (snd (step cpu m)) = length m)"

section \<open>Testbench::tick and Testbench::reset\<close>

definition rtl_eval_call :: "rtl_eval \<Rightarrow> Testbench \<Rightarrow> Testbench" where
  "rtl_eval_call eval tb =
     (emit (RtlEval (clk (rtl tb)) (rst (rtl tb))) tb)
       \<lparr>rtl := (rtl tb)\<lparr>rootp := eval (clk (rtl tb)) (rst (rtl tb)) (rootp (rtl tb))\<rparr>\<rparr>"

text \<open>\<^verbatim>\<open>if (trace) trace->dump(sim_time++);\<close>\<close>
definition trace_dump :: "Testbench \<Rightarrow> Testbench" where
  "trace_dump tb =
     (if trace tb then (emit (VcdDump (sim_time tb)) tb)\<lparr>sim_time := sim_time tb + 1\<rparr>
      else tb)"

definition tick :: "rtl_eval \<Rightarrow> Testbench \<Rightarrow> Testbench" where
  "tick eval tb =
     (let tb = tb\<lparr>rtl := (rtl tb)\<lparr>clk := True\<rparr>\<rparr>;
          tb = rtl_eval_call eval tb;
          tb = trace_dump tb;
          tb = tb\<lparr>rtl := (rtl tb)\<lparr>clk := False\<rparr>\<rparr>;
          tb = rtl_eval_call eval tb;
          tb = trace_dump tb
      in tb\<lparr>cycles_run := cycles_run tb + 1\<rparr>)"

text \<open>\<^verbatim>\<open>for (int i = 0; i < n; i++) a[i] = 0;\<close>\<close>
function reset_clear :: "nat \<Rightarrow> nat \<Rightarrow> u32 list \<Rightarrow> u32 list option" where
  "reset_clear i n a =
     (if i < n then array_set a i 0 \<bind> (\<lambda>a. reset_clear (i + 1) n a) else Some a)"
  by pat_completeness auto
termination
  by (relation "measure (\<lambda>(i, n, a). n - i)") auto

definition reset :: "rtl_eval \<Rightarrow> Testbench \<Rightarrow> Testbench option" where
  "reset eval tb =
     (let tb = tb\<lparr>rtl := (rtl tb)\<lparr>rst := True\<rparr>\<rparr>;
          tb = fold (\<lambda>i. tick eval) [0..<5] tb;
          tb = tb\<lparr>rtl := (rtl tb)\<lparr>rst := False\<rparr>\<rparr>
      in reset_clear 0 32 (regfile_registers (rootp (rtl tb))) \<bind> (\<lambda>rs.
         reset_clear 0 1024 (dmem_mem (rootp (rtl tb))) \<bind> (\<lambda>dm.
         let tb = tb\<lparr>rtl := (rtl tb)\<lparr>rootp :=
                     (rootp (rtl tb))\<lparr>regfile_registers := rs, dmem_mem := dm\<rparr>\<rparr>\<rparr>;
             tb = emit RefInit tb
         in Some (tb\<lparr>ref := riscv_init (ref tb) (ref_mem_ptr tb) (of_nat MEM_SIZE)\<rparr>))))"

section \<open>Testbench::compareState, stepAndCompare, printState\<close>

text \<open>The register index is an \<^verbatim>\<open>int\<close> in C++; every caller passes 1..31.\<close>
definition getRtlReg :: "Testbench \<Rightarrow> nat \<Rightarrow> u32" where
  "getRtlReg tb reg = (if reg = 0 then 0 else regfile_registers (rootp (rtl tb)) ! reg)"

definition getRtlPc :: "Testbench \<Rightarrow> u32" where
  "getRtlPc tb = cpu_top_pc (rootp (rtl tb))"

text \<open>The body of the register loop of compareState, on the pair of the local
  \<^verbatim>\<open>match\<close> and the testbench.\<close>
definition compareState_reg :: "nat \<Rightarrow> bool \<times> Testbench \<Rightarrow> bool \<times> Testbench" where
  "compareState_reg i = (\<lambda>(match, tb).
     let rtl_val = getRtlReg tb i;
         tb = emit (RefGetReg i) tb;
         ref_val = riscv_get_reg (ref tb) i
     in if rtl_val \<noteq> ref_val then (False, emit (ErrRegMismatch i rtl_val ref_val) tb)
        else (match, tb))"

definition compareState :: "Testbench \<Rightarrow> bool \<times> Testbench" where
  "compareState tb =
     (let match = True;
          rtl_pc = getRtlPc tb;
          tb = emit RefGetPc tb;
          ref_pc = riscv_get_pc (ref tb);
          (match, tb) = (if rtl_pc \<noteq> ref_pc
                         then (False, emit (ErrPcMismatch rtl_pc ref_pc) tb)
                         else (match, tb))
      in fold compareState_reg [1..<32] (match, tb))"

definition stepAndCompare :: "rtl_eval \<Rightarrow> ref_step \<Rightarrow> Testbench \<Rightarrow> Testbench" where
  "stepAndCompare eval step tb =
     (let tb = tick eval tb;
          tb = emit RefStep tb;
          (cpu, m) = step (ref tb) (ref_mem tb)
      in tb\<lparr>ref := cpu, ref_mem := m\<rparr>)"

definition printState_reg :: "nat \<Rightarrow> Testbench \<Rightarrow> Testbench" where
  "printState_reg i tb =
     (let rtl_val = getRtlReg tb i;
          tb = emit (RefGetReg i) tb;
          ref_val = riscv_get_reg (ref tb) i
      in if rtl_val \<noteq> 0 \<or> ref_val \<noteq> 0
         then emit (OutStateReg i rtl_val ref_val (rtl_val \<noteq> ref_val)) tb
         else tb)"

definition printState :: "Testbench \<Rightarrow> Testbench" where
  "printState tb =
     (let tb = emit OutStateHeader tb;
          rtl_pc = getRtlPc tb;
          tb = emit RefGetPc tb;
          tb = emit (OutStatePc rtl_pc (riscv_get_pc (ref tb))) tb;
          tb = emit OutStateRegsHeader tb
      in fold printState_reg [1..<32] tb)"

section \<open>Testbench::runTest\<close>

text \<open>The loop \<^verbatim>\<open>for (int i = 0; i < cycles; i++)\<close> with its \<^verbatim>\<open>break\<close>; the result
  is the local \<^verbatim>\<open>all_match\<close> and the testbench.\<close>
function runTest_loop ::
  "rtl_eval \<Rightarrow> ref_step \<Rightarrow> int \<Rightarrow> int \<Rightarrow> Testbench \<Rightarrow> bool \<times> Testbench" where
  "runTest_loop eval step i cycles tb =
     (if i < cycles then
        (let tb = stepAndCompare eval step tb;
             (ok, tb) = compareState tb
         in if \<not> ok then (False, printState (emit (ErrMismatchAtCycle i) tb))
            else runTest_loop eval step (i + 1) cycles tb)
      else (True, tb))"
  by pat_completeness auto
termination
  by (relation "measure (\<lambda>(eval, step, i, cycles, tb). nat (cycles - i))") auto

definition runTest ::
  "rtl_eval \<Rightarrow> ref_step \<Rightarrow> string \<Rightarrow> u32 list \<Rightarrow> int \<Rightarrow> Testbench \<Rightarrow> Testbench option" where
  "runTest eval step name program cycles tb =
     (let tb = emit (OutRunning name) tb
      in loadProgram program tb \<bind> (\<lambda>tb.
         reset eval tb \<bind> (\<lambda>tb.
         let (all_match, tb) = runTest_loop eval step 0 cycles tb;
             tb = (if all_match
                   then (emit (OutPass name) tb)\<lparr>tests_passed := tests_passed tb + 1\<rparr>
                   else (emit (OutFail name) tb)\<lparr>tests_failed := tests_failed tb + 1\<rparr>)
         in Some (printState tb))))"

section \<open>The constructor and main\<close>

text \<open>\<^verbatim>\<open>for (int i = 0; i < MEM_SIZE; i += 4)\<close> of the constructor.\<close>
function Testbench_fill :: "nat \<Rightarrow> u8 list \<Rightarrow> u8 list option" where
  "Testbench_fill i m =
     (if i < MEM_SIZE then
        array_set m (i + 0) 0x13 \<bind> (\<lambda>m.
        array_set m (i + 1) 0x00 \<bind> (\<lambda>m.
        array_set m (i + 2) 0x00 \<bind> (\<lambda>m.
        array_set m (i + 3) 0x00 \<bind> (\<lambda>m.
        Testbench_fill (i + 4) m))))
      else Some m)"
  by pat_completeness auto
termination
  by (relation "measure (\<lambda>(i, m). MEM_SIZE - i)") auto

text \<open>\<^verbatim>\<open>Testbench()\<close>. The arguments are what the constructor does not decide: the
  state of the freshly created hardware model, the address \<^verbatim>\<open>new\<close> returns, and the
  uninitialised member \<^verbatim>\<open>ref\<close>.\<close>
definition Testbench_new :: "Vcpu_top \<Rightarrow> addr \<Rightarrow> RiscvCpu \<Rightarrow> Testbench option" where
  "Testbench_new rtl0 p cpu0 =
     Testbench_fill 0 (replicate MEM_SIZE 0) \<bind> (\<lambda>m.
     Some \<lparr>rtl = rtl0, ref = riscv_init cpu0 p (of_nat MEM_SIZE), trace = False,
           sim_time = 0, ref_mem_ptr = p, ref_mem = m, tests_passed = 0,
           tests_failed = 0, cycles_run = 0, events = [RefInit]\<rparr>)"

definition openTrace :: "Testbench \<Rightarrow> Testbench" where
  "openTrace tb = tb\<lparr>trace := True\<rparr>"

definition test_add :: "u32 list" where
  "test_add = [0x00500093, 0x00300113, 0x002081b3, 0x00000013]"

definition test_sub :: "u32 list" where
  "test_sub = [0x00A00093, 0x00300113, 0x402081b3, 0x00000013]"

definition test_logic :: "u32 list" where
  "test_logic = [0x0FF00093, 0x0F000113, 0x002071b3, 0x0020E233, 0x0020C2B3, 0x00000013]"

definition test_imm :: "u32 list" where
  "test_imm = [0x01400093, 0x00A0F113, 0x00F0E193, 0x00000013]"

definition test_shift :: "u32 list" where
  "test_shift = [0x00800093, 0x00209113, 0x0020D193, 0x00000013]"

definition main_banner :: "Testbench \<Rightarrow> Testbench" where
  "main_banner tb =
     emit (OutLine ''========================================'')
       (emit (OutLine ''RTL vs Reference Model Comparison'')
         (emit (OutLine ''RISC-V CPU Verification Testbench'')
           (emit (OutLine ''========================================'') tb)))"

definition main_summary :: "Testbench \<Rightarrow> Testbench" where
  "main_summary tb =
     emit (OutCount ''Total Cycles: '' (sint (cycles_run tb)))
       (emit (OutCount ''Tests Failed: '' (sint (tests_failed tb)))
         (emit (OutCount ''Tests Passed: '' (sint (tests_passed tb)))
           (emit (OutLine ''========================================'')
             (emit (OutLine ''Test Summary'')
               (emit (OutLine ''========================================'') tb)))))"

text \<open>\<^verbatim>\<open>main\<close>: the exit status and the final testbench.\<close>
definition main ::
  "rtl_eval \<Rightarrow> ref_step \<Rightarrow> Vcpu_top \<Rightarrow> addr \<Rightarrow> RiscvCpu \<Rightarrow> (int \<times> Testbench) option" where
  "main eval step rtl0 p cpu0 =
     Testbench_new rtl0 p cpu0 \<bind> (\<lambda>tb.
     runTest eval step ''Simple Add'' test_add 4 (main_banner (openTrace tb)) \<bind> (\<lambda>tb.
     runTest eval step ''Subtraction'' test_sub 4 tb \<bind> (\<lambda>tb.
     runTest eval step ''Logical Ops'' test_logic 6 tb \<bind> (\<lambda>tb.
     runTest eval step ''Immediate Ops'' test_imm 4 tb \<bind> (\<lambda>tb.
     runTest eval step ''Shifts'' test_shift 4 tb \<bind> (\<lambda>tb.
     let tb = main_summary tb
     in if tests_failed tb = 0
        then Some (0, emit (OutLine ''*** ALL TESTS PASSED ***'') tb)
        else Some (1, emit (OutLine ''*** SOME TESTS FAILED ***'') tb)))))))"

section \<open>Notions used to state the results\<close>

text \<open>The four bytes loadProgram writes for one instruction word, in address order.\<close>
definition word_bytes :: "u32 \<Rightarrow> u8 list" where
  "word_bytes w = [ucast (drop_bit 0 w AND 0xFF), ucast (drop_bit 8 w AND 0xFF),
                   ucast (drop_bit 16 w AND 0xFF), ucast (drop_bit 24 w AND 0xFF)]"

text \<open>One iteration of the loop of runTest up to its test: the testbench after
  \<^verbatim>\<open>stepAndCompare(); compareState()\<close>, and the value compareState returned.\<close>
definition comparison_round :: "rtl_eval \<Rightarrow> ref_step \<Rightarrow> Testbench \<Rightarrow> Testbench" where
  "comparison_round eval step tb = snd (compareState (stepAndCompare eval step tb))"

definition round_matches :: "rtl_eval \<Rightarrow> ref_step \<Rightarrow> Testbench \<Rightarrow> bool" where
  "round_matches eval step tb = fst (compareState (stepAndCompare eval step tb))"

text \<open>How often an event occurs in a log.\<close>
definition occurrences :: "event \<Rightarrow> event list \<Rightarrow> nat" where
  "occurrences e evs = length (filter (\<lambda>x. x = e) evs)"

text \<open>The calls of \<^verbatim>\<open>eval\<close>, and the FAIL lines.\<close>
definition is_RtlEval :: "event \<Rightarrow> bool" where
  "is_RtlEval e = (case e of RtlEval c r \<Rightarrow> True | _ \<Rightarrow> False)"

definition is_OutFail :: "event \<Rightarrow> bool" where
  "is_OutFail e = (case e of OutFail n \<Rightarrow> True | _ \<Rightarrow> False)"

text \<open>The hardware internals after one clock cycle with reset input \<open>r\<close>: the eval
  with clock high, then the eval with clock low.\<close>
definition cycle_root :: "rtl_eval \<Rightarrow> bool \<Rightarrow> Vcpu_top_root \<Rightarrow> Vcpu_top_root" where
  "cycle_root eval r s = eval False r (eval True r s)"

text \<open>What one tick appends to the log, for reset input \<open>r\<close>, trace flag \<open>tr\<close> and
  simulation time \<open>t\<close>.\<close>
definition tick_events :: "bool \<Rightarrow> bool \<Rightarrow> u64 \<Rightarrow> event list" where
  "tick_events r tr t =
     [RtlEval True r] @ (if tr then [VcdDump t] else []) @
     [RtlEval False r] @ (if tr then [VcdDump (t + 1)] else [])"

text \<open>What compareState and printState append to the log.\<close>
definition compare_reg_events :: "Testbench \<Rightarrow> nat \<Rightarrow> event list" where
  "compare_reg_events tb i =
     RefGetReg i #
     (if getRtlReg tb i \<noteq> riscv_get_reg (ref tb) i
      then [ErrRegMismatch i (getRtlReg tb i) (riscv_get_reg (ref tb) i)] else [])"

definition compare_events :: "Testbench \<Rightarrow> event list" where
  "compare_events tb =
     RefGetPc #
     (if getRtlPc tb \<noteq> riscv_get_pc (ref tb)
      then [ErrPcMismatch (getRtlPc tb) (riscv_get_pc (ref tb))] else []) @
     concat (map (compare_reg_events tb) [1..<32])"

definition print_reg_events :: "Testbench \<Rightarrow> nat \<Rightarrow> event list" where
  "print_reg_events tb i =
     RefGetReg i #
     (if getRtlReg tb i \<noteq> 0 \<or> riscv_get_reg (ref tb) i \<noteq> 0
      then [OutStateReg i (getRtlReg tb i) (riscv_get_reg (ref tb) i)
              (getRtlReg tb i \<noteq> riscv_get_reg (ref tb) i)] else [])"

definition print_events :: "Testbench \<Rightarrow> event list" where
  "print_events tb =
     [OutStateHeader, RefGetPc, OutStatePc (getRtlPc tb) (riscv_get_pc (ref tb)),
      OutStateRegsHeader] @
     concat (map (print_reg_events tb) [1..<32])"

text \<open>The events of reading and reporting state: getter calls, mismatch lines and
  the lines of a state dump.\<close>
fun is_report :: "event \<Rightarrow> bool" where
  "is_report RefGetPc = True"
| "is_report (RefGetReg i) = True"
| "is_report (ErrPcMismatch a b) = True"
| "is_report (ErrRegMismatch i a b) = True"
| "is_report OutStateHeader = True"
| "is_report (OutStatePc a b) = True"
| "is_report OutStateRegsHeader = True"
| "is_report (OutStateReg i a b m) = True"
| "is_report _ = False"

text \<open>The testbench after \<open>k\<close> iterations of the loop of runTest that all matched.\<close>
definition after_rounds :: "rtl_eval \<Rightarrow> ref_step \<Rightarrow> nat \<Rightarrow> Testbench \<Rightarrow> Testbench" where
  "after_rounds eval step k tb = (comparison_round eval step ^^ k) tb"

text \<open>The testbench when runTest enters its loop: after the banner line,
  \<^verbatim>\<open>loadProgram(program)\<close> and \<^verbatim>\<open>reset()\<close>.\<close>
definition prepared :: "rtl_eval \<Rightarrow> string \<Rightarrow> u32 list \<Rightarrow> Testbench \<Rightarrow> Testbench option" where
  "prepared eval name program tb =
     loadProgram program (emit (OutRunning name) tb) \<bind> reset eval"

text \<open>The hardware and the reference model agree on what compareState compares.\<close>
definition states_agree :: "Testbench \<Rightarrow> bool" where
  "states_agree tb \<longleftrightarrow>
     getRtlPc tb = riscv_get_pc (ref tb) \<and>
     list_all (\<lambda>i. getRtlReg tb i = riscv_get_reg (ref tb) i) [1..<32]"

text \<open>Registers 1 to 31 read as zero on both sides.\<close>
definition regs_zero :: "Testbench \<Rightarrow> bool" where
  "regs_zero tb \<longleftrightarrow>
     list_all (\<lambda>i. getRtlReg tb i = 0 \<and> riscv_get_reg (ref tb) i = 0) [1..<32]"

subsection \<open>Concrete inputs\<close>

text \<open>A hardware model whose signals are all zero, and the testbench the constructor
  builds around it when \<^verbatim>\<open>new\<close> returns address 0.\<close>
definition rtl_zero :: Vcpu_top where
  "rtl_zero = \<lparr>clk = False, rst = False,
     rootp = \<lparr>cpu_top_pc = 0, regfile_registers = replicate 32 0,
              dmem_mem = replicate 1024 0, imem_mem = replicate 1024 0\<rparr>\<rparr>"

definition cpu_zero :: RiscvCpu where
  "cpu_zero = \<lparr>pc = 0, regs = replicate 32 0, mem = 0, mem_size = 4096, halted = False\<rparr>"

definition tb_init :: Testbench where
  "tb_init = \<lparr>rtl = rtl_zero, ref = cpu_zero, trace = False, sim_time = 0,
     ref_mem_ptr = 0, ref_mem = concat (replicate 1024 [0x13, 0, 0, 0]),
     tests_passed = 0, tests_failed = 0, cycles_run = 0, events = [RefInit]\<rparr>"

text \<open>Two toy hardware models and two toy reference models: one that holds its
  state, one that only advances the program counter by 4 (the hardware on the
  rising clock edge outside reset).\<close>
definition eval_hold :: rtl_eval where
  "eval_hold c r s = s"

definition eval_pc4 :: rtl_eval where
  "eval_pc4 c r s = (if r then s\<lparr>cpu_top_pc := 0\<rparr>
                     else if c then s\<lparr>cpu_top_pc := cpu_top_pc s + 4\<rparr> else s)"

definition step_hold :: ref_step where
  "step_hold cpu m = (cpu, m)"

definition step_pc4 :: ref_step where
  "step_pc4 cpu m = (cpu\<lparr>pc := pc cpu + 4\<rparr>, m)"

section \<open>Proof setup\<close>

text \<open>The recursive equations of the loops are unfolded explicitly, one iteration at a
  time.\<close>

declare loadProgram_ref.simps [simp del]
declare loadProgram_rtl.simps [simp del]
declare loadProgram_nops.simps [simp del]
declare reset_clear.simps [simp del]
declare runTest_loop.simps [simp del]
declare Testbench_fill.simps [simp del]

section \<open>Lemmas: 32-bit counters\<close>

lemma sint_add_of_nat32:
  fixes x :: int32
  assumes "sint x + int n \<le> INT_MAX"
  shows "sint (x + of_nat n) = sint x + int n"
proof -
  have lo: "- (2 ^ 31) \<le> sint x" and hi: "sint x < 2 ^ 31"
    using sint_ge[of x] sint_lt[of x] by simp_all
  have "of_nat n = (word_of_int (int n) :: int32)" by simp
  then have "sint (of_nat n :: int32) = signed_take_bit 31 (int n)"
    by (simp only: sint_sbintrunc') simp
  moreover have "sint x = signed_take_bit 31 (sint x)"
    using lo hi by (simp add: signed_take_bit_int_eq_self)
  ultimately have "sint (x + of_nat n) =
      signed_take_bit 31 (signed_take_bit 31 (sint x) + signed_take_bit 31 (int n))"
    by (simp add: sint_word_add)
  also have "\<dots> = signed_take_bit 31 (sint x + int n)"
    by (rule signed_take_bit_add)
  also have "\<dots> = sint x + int n"
    using lo assms by (intro signed_take_bit_int_eq_self) simp_all
  finally show ?thesis .
qed

lemma sint_succ32:
  fixes x :: int32
  shows "sint x < INT_MAX \<Longrightarrow> sint (x + 1) = sint x + 1"
  using sint_add_of_nat32[of x 1] by simp

lemma sint_of_nat32: "n < 2 ^ 31 \<Longrightarrow> sint (of_nat n :: int32) = int n"
  using sint_add_of_nat32[of 0 n] by simp

section \<open>Lemmas: the loops of loadProgram\<close>

lemma loadProgram_nops_spec:
  "length im = 1024 \<Longrightarrow>
   \<exists>im'. loadProgram_nops i im = Some im' \<and> length im' = 1024 \<and>
         (\<forall>j<1024. im' ! j = (if i \<le> j then 0x13 else im ! j))"
proof (induction i im rule: loadProgram_nops.induct)
  case (1 i im)
  show ?case
  proof (cases "i < 1024")
    case True
    have st: "array_set im i 0x13 = Some (im[i := 0x13])"
      using True 1(2) by (simp add: array_set_def)
    from 1(1)[OF True st] 1(2) obtain im' where
      im': "loadProgram_nops (i + 1) (im[i := 0x13]) = Some im'" "length im' = 1024"
        "\<forall>j<1024. im' ! j = (if i + 1 \<le> j then 0x13 else im[i := 0x13] ! j)"
      by auto
    have "loadProgram_nops i im = Some im'"
      unfolding loadProgram_nops.simps[of i im] using True st im'(1) by simp
    moreover have "\<forall>j<1024. im' ! j = (if i \<le> j then 0x13 else im ! j)"
      using im'(3) 1(2) True by (auto simp: nth_list_update)
    ultimately show ?thesis using im'(2) by blast
  next
    case False
    then show ?thesis
      using 1(2) by (subst loadProgram_nops.simps) auto
  qed
qed

lemma loadProgram_rtl_spec:
  "length im = 1024 \<Longrightarrow>
   \<exists>im'. loadProgram_rtl program i im = Some im' \<and> length im' = 1024 \<and>
         (\<forall>j<1024. im' ! j = (if i \<le> j \<and> j < length program then program ! j else im ! j))"
proof (induction program i im rule: loadProgram_rtl.induct)
  case (1 program i im)
  show ?case
  proof (cases "i < length program \<and> i < 1024")
    case True
    have st: "array_set im i (program ! i) = Some (im[i := program ! i])"
      using True 1(2) by (simp add: array_set_def)
    from 1(1)[OF True st] 1(2) obtain im' where
      im': "loadProgram_rtl program (i + 1) (im[i := program ! i]) = Some im'" "length im' = 1024"
        "\<forall>j<1024. im' ! j = (if i + 1 \<le> j \<and> j < length program then program ! j else im[i := program ! i] ! j)"
      by auto
    have "loadProgram_rtl program i im = Some im'"
      unfolding loadProgram_rtl.simps[of program i im] using True st im'(1) by simp
    moreover have "\<forall>j<1024. im' ! j = (if i \<le> j \<and> j < length program then program ! j else im ! j)"
      using im'(3) 1(2) True by (auto simp: nth_list_update)
    ultimately show ?thesis using im'(2) by blast
  next
    case False
    then show ?thesis
      using 1(2) by (subst loadProgram_rtl.simps) auto
  qed
qed

lemma loadProgram_ref_spec:
  "length m = 4096 \<Longrightarrow>
   \<exists>m'. loadProgram_ref program i m = Some m' \<and> length m' = 4096 \<and>
        (\<forall>k<4096. m' ! k =
           (if i \<le> k div 4 \<and> k div 4 < length program
            then ucast (drop_bit (8 * (k mod 4)) (program ! (k div 4)) AND 0xFF)
            else m ! k))"
proof (induction program i m rule: loadProgram_ref.induct)
  case (1 program i m)
  show ?case
  proof (cases "i < length program \<and> i * 4 < MEM_SIZE")
    case True
    define w where "w = program ! i"
    define m1 where "m1 = m[i * 4 + 0 := ucast (drop_bit 0 w AND 0xFF)]"
    define m2 where "m2 = m1[i * 4 + 1 := ucast (drop_bit 8 w AND 0xFF)]"
    define m3 where "m3 = m2[i * 4 + 2 := ucast (drop_bit 16 w AND 0xFF)]"
    define m4 where "m4 = m3[i * 4 + 3 := ucast (drop_bit 24 w AND 0xFF)]"
    have len: "length m1 = 4096" "length m2 = 4096" "length m3 = 4096" "length m4 = 4096"
      using 1(2) by (simp_all add: m1_def m2_def m3_def m4_def)
    have s1: "array_set m (i * 4 + 0) (ucast (drop_bit 0 w AND 0xFF)) = Some m1"
      using True 1(2) by (simp add: array_set_def m1_def)
    have s2: "array_set m1 (i * 4 + 1) (ucast (drop_bit 8 w AND 0xFF)) = Some m2"
      using True len by (simp add: array_set_def m2_def)
    have s3: "array_set m2 (i * 4 + 2) (ucast (drop_bit 16 w AND 0xFF)) = Some m3"
      using True len by (simp add: array_set_def m3_def)
    have s4: "array_set m3 (i * 4 + 3) (ucast (drop_bit 24 w AND 0xFF)) = Some m4"
      using True len by (simp add: array_set_def m4_def)
    from 1(1)[OF True w_def s1 s2 s3 s4 len(4)] obtain m' where
      m': "loadProgram_ref program (i + 1) m4 = Some m'" "length m' = 4096"
        "\<forall>k<4096. m' ! k =
           (if i + 1 \<le> k div 4 \<and> k div 4 < length program
            then ucast (drop_bit (8 * (k mod 4)) (program ! (k div 4)) AND 0xFF)
            else m4 ! k)"
      by auto
    have run: "loadProgram_ref program i m = Some m'"
      unfolding loadProgram_ref.simps[of program i m]
      using True s1 s2 s3 s4 m'(1) by (simp add: w_def Let_def)
    have "m' ! k =
           (if i \<le> k div 4 \<and> k div 4 < length program
            then ucast (drop_bit (8 * (k mod 4)) (program ! (k div 4)) AND 0xFF)
            else m ! k)" if k: "k < 4096" for k
    proof (cases "k div 4 = i")
      case False
      then have ne: "k \<noteq> i * 4 + 0" "k \<noteq> i * 4 + 1" "k \<noteq> i * 4 + 2" "k \<noteq> i * 4 + 3"
        by auto
      have "m4 ! k = m ! k"
        using ne by (simp add: m4_def m3_def m2_def m1_def)
      with m'(3) k False show ?thesis by auto
    next
      case here: True
      then have kk: "k = i * 4 + k mod 4" by auto
      have cases4: "k mod 4 = 0 \<or> k mod 4 = 1 \<or> k mod 4 = 2 \<or> k mod 4 = 3" by arith
      have old: "m' ! k = m4 ! k" using m'(3) k here by auto
      have "m4 ! k = ucast (drop_bit (8 * (k mod 4)) w AND 0xFF)"
        using cases4
      proof (elim disjE)
        assume a: "k mod 4 = 0"
        then have "k = i * 4 + 0" using kk by simp
        then show ?thesis using a 1(2) k by (simp add: m4_def m3_def m2_def m1_def)
      next
        assume a: "k mod 4 = 1"
        then have "k = i * 4 + 1" using kk by simp
        then show ?thesis using a len k by (simp add: m4_def m3_def m2_def)
      next
        assume a: "k mod 4 = 2"
        then have "k = i * 4 + 2" using kk by simp
        then show ?thesis using a len k by (simp add: m4_def m3_def)
      next
        assume a: "k mod 4 = 3"
        then have "k = i * 4 + 3" using kk by simp
        then show ?thesis using a len k by (simp add: m4_def)
      qed
      with old here True show ?thesis by (simp add: w_def)
    qed
    with run m'(2) show ?thesis by blast
  next
    case False
    then show ?thesis
      using 1(2) unfolding loadProgram_ref.simps[of program i m] by auto
  qed
qed

lemma loadProgram_spec:
  assumes "tb_wf tb"
  shows "\<exists>m im. loadProgram program tb =
            Some (tb\<lparr>ref_mem := m,
                     rtl := (rtl tb)\<lparr>rootp := (rootp (rtl tb))\<lparr>imem_mem := im\<rparr>\<rparr>\<rparr>) \<and>
          length m = 4096 \<and> length im = 1024 \<and>
          (\<forall>k<4096. m ! k =
             (if k div 4 < length program
              then ucast (drop_bit (8 * (k mod 4)) (program ! (k div 4)) AND 0xFF)
              else ref_mem tb ! k)) \<and>
          (\<forall>j<1024. im ! j = (if j < length program then program ! j else 0x13))"
proof -
  from assms have lm: "length (ref_mem tb) = 4096"
    and li: "length (imem_mem (rootp (rtl tb))) = 1024"
    by (simp_all add: tb_wf_def root_wf_def)
  from loadProgram_ref_spec[OF lm, of program 0] obtain m where
    m: "loadProgram_ref program 0 (ref_mem tb) = Some m" "length m = 4096"
       "\<forall>k<4096. m ! k =
             (if k div 4 < length program
              then ucast (drop_bit (8 * (k mod 4)) (program ! (k div 4)) AND 0xFF)
              else ref_mem tb ! k)"
    by auto
  from loadProgram_rtl_spec[OF li, of program 0] obtain im1 where
    im1: "loadProgram_rtl program 0 (imem_mem (rootp (rtl tb))) = Some im1" "length im1 = 1024"
       "\<forall>j<1024. im1 ! j = (if j < length program then program ! j
                             else imem_mem (rootp (rtl tb)) ! j)"
    by auto
  from loadProgram_nops_spec[OF im1(2), of "length program"] obtain im where
    im: "loadProgram_nops (length program) im1 = Some im" "length im = 1024"
       "\<forall>j<1024. im ! j = (if length program \<le> j then 0x13 else im1 ! j)"
    by auto
  have "\<forall>j<1024. im ! j = (if j < length program then program ! j else 0x13)"
    using im(3) im1(3) by auto
  moreover have "loadProgram program tb =
            Some (tb\<lparr>ref_mem := m,
                     rtl := (rtl tb)\<lparr>rootp := (rootp (rtl tb))\<lparr>imem_mem := im\<rparr>\<rparr>\<rparr>)"
    by (simp add: loadProgram_def m(1) im1(1) im(1))
  ultimately show ?thesis using m(2,3) im(2) by blast
qed

lemma nth_concat4:
  "(\<forall>x\<in>set xs. length x = 4) \<Longrightarrow> k < 4 * length xs \<Longrightarrow>
   concat xs ! k = xs ! (k div 4) ! (k mod 4)"
proof (induction xs arbitrary: k)
  case Nil
  then show ?case by simp
next
  case (Cons x xs)
  show ?case
  proof (cases "k < 4")
    case True
    with Cons.prems show ?thesis by (simp add: nth_append)
  next
    case False
    define k' where "k' = k - 4"
    have k: "k = k' + 4" using False by (simp add: k'_def)
    have d: "k div 4 = Suc (k' div 4)" and r: "k mod 4 = k' mod 4"
      unfolding k by simp_all
    have "concat (x # xs) ! k = concat xs ! k'"
      using Cons.prems(1) by (simp add: nth_append k)
    also have "\<dots> = xs ! (k' div 4) ! (k' mod 4)"
    proof (rule Cons.IH)
      show "\<forall>x\<in>set xs. length x = 4" using Cons.prems(1) by simp
      show "k' < 4 * length xs" using Cons.prems(2) by (simp add: k)
    qed
    also have "\<dots> = (x # xs) ! (k div 4) ! (k mod 4)"
      by (simp add: d r)
    finally show ?thesis .
  qed
qed

lemma word_bytes_nth:
  "j < 4 \<Longrightarrow> word_bytes w ! j = ucast (drop_bit (8 * j) w AND 0xFF)"
proof -
  assume "j < 4"
  then have "j = 0 \<or> j = 1 \<or> j = 2 \<or> j = 3" by arith
  then show ?thesis by (auto simp: word_bytes_def)
qed

section \<open>Lemmas: the constructor\<close>

lemma Testbench_fill_spec:
  "length m = 4096 \<Longrightarrow> i = 4 * q \<Longrightarrow>
   \<exists>m'. Testbench_fill i m = Some m' \<and> length m' = 4096 \<and>
        (\<forall>k<4096. m' ! k = (if i \<le> k then [0x13, 0, 0, 0] ! (k mod 4) else m ! k))"
proof (induction i m arbitrary: q rule: Testbench_fill.induct)
  case (1 i m)
  show ?case
  proof (cases "i < MEM_SIZE")
    case True
    define m1 where "m1 = m[i + 0 := 0x13]"
    define m2 where "m2 = m1[i + 1 := 0x00]"
    define m3 where "m3 = m2[i + 2 := 0x00]"
    define m4 where "m4 = m3[i + 3 := 0x00]"
    have len: "length m1 = 4096" "length m2 = 4096" "length m3 = 4096" "length m4 = 4096"
      using 1(2) by (simp_all add: m1_def m2_def m3_def m4_def)
    have i3: "i + 3 < 4096" using True 1(3) by simp
    have s1: "array_set m (i + 0) 0x13 = Some m1"
      using i3 1(2) by (simp add: array_set_def m1_def)
    have s2: "array_set m1 (i + 1) 0x00 = Some m2"
      using i3 len by (simp add: array_set_def m2_def)
    have s3: "array_set m2 (i + 2) 0x00 = Some m3"
      using i3 len by (simp add: array_set_def m3_def)
    have s4: "array_set m3 (i + 3) 0x00 = Some m4"
      using i3 len by (simp add: array_set_def m4_def)
    have "i + 4 = 4 * Suc q" using 1(3) by simp
    from 1(1)[OF True s1 s2 s3 s4 len(4) this] obtain m' where
      m': "Testbench_fill (i + 4) m4 = Some m'" "length m' = 4096"
        "\<forall>k<4096. m' ! k = (if i + 4 \<le> k then [0x13, 0, 0, 0] ! (k mod 4) else m4 ! k)"
      by auto
    have run: "Testbench_fill i m = Some m'"
      unfolding Testbench_fill.simps[of i m]
      using True s1 s2 s3 s4 m'(1) by simp
    have "m' ! k = (if i \<le> k then [0x13, 0, 0, 0] ! (k mod 4) else m ! k)"
      if k: "k < 4096" for k
    proof -
      consider "k < i" | "k = i + 0" | "k = i + 1" | "k = i + 2" | "k = i + 3" | "i + 4 \<le> k"
        by linarith
      then show ?thesis
      proof cases
        case 1
        then have "m4 ! k = m ! k" by (simp add: m4_def m3_def m2_def m1_def)
        with m'(3) k 1 show ?thesis by simp
      next
        case 2
        then have "m4 ! k = 0x13" using i3 \<open>length m = 4096\<close>
          by (simp add: m4_def m3_def m2_def m1_def)
        moreover have "k mod 4 = 0" using 2 \<open>i = 4 * q\<close> by presburger
        ultimately show ?thesis using m'(3) k 2 by simp
      next
        case 3
        then have "m4 ! k = 0" using i3 len by (simp add: m4_def m3_def m2_def)
        moreover have "k mod 4 = 1" using 3 \<open>i = 4 * q\<close> by presburger
        ultimately show ?thesis using m'(3) k 3 by simp
      next
        case 4
        then have "m4 ! k = 0" using i3 len by (simp add: m4_def m3_def)
        moreover have "k mod 4 = 2" using 4 \<open>i = 4 * q\<close> by presburger
        ultimately show ?thesis using m'(3) k 4 by simp
      next
        case 5
        then have "m4 ! k = 0" using i3 len by (simp add: m4_def)
        moreover have "k mod 4 = 3" using 5 \<open>i = 4 * q\<close> by presburger
        ultimately show ?thesis using m'(3) k 5 by simp
      next
        case 6
        with m'(3) k show ?thesis by simp
      qed
    qed
    with run m'(2) show ?thesis by blast
  next
    case False
    then show ?thesis
      using 1(2) unfolding Testbench_fill.simps[of i m] by auto
  qed
qed

lemma Testbench_fill_init:
  "Testbench_fill 0 (replicate 4096 0) = Some (concat (replicate 1024 [0x13, 0, 0, 0]))"
proof -
  from Testbench_fill_spec[of "replicate 4096 0" 0 0] obtain m' where
    m': "Testbench_fill 0 (replicate 4096 0) = Some m'" "length m' = 4096"
      "\<forall>k<4096. m' ! k = [0x13, 0, 0, 0] ! (k mod 4)"
    by auto
  have "m' = concat (replicate 1024 [0x13, 0, 0, 0])"
  proof (rule nth_equalityI)
    show "length m' = length (concat (replicate 1024 [0x13, 0, 0, 0::u8]))"
      using m'(2) by (simp add: length_concat sum_list_replicate)
  next
    fix k assume "k < length m'"
    then have k: "k < 4096" using m'(2) by simp
    then have kd: "k div 4 < 1024" by simp
    have "concat (replicate 1024 [0x13, 0, 0, 0::u8]) ! k =
          replicate 1024 [0x13, 0, 0, 0::u8] ! (k div 4) ! (k mod 4)"
    proof (rule nth_concat4)
      show "\<forall>x\<in>set (replicate 1024 [0x13, 0, 0, 0::u8]). length x = 4" by simp
      show "k < 4 * length (replicate 1024 [0x13, 0, 0, 0::u8])" using k by simp
    qed
    also have "\<dots> = [0x13, 0, 0, 0] ! (k mod 4)"
      using kd by simp
    finally show "m' ! k = concat (replicate 1024 [0x13, 0, 0, 0]) ! k"
      using m'(3) k by simp
  qed
  with m'(1) show ?thesis by simp
qed

lemma Testbench_new_init: "Testbench_new rtl_zero 0 cpu0 = Some tb_init"
  by (cases cpu0)
    (simp add: Testbench_new_def Testbench_fill_init tb_init_def riscv_init_def cpu_zero_def)

lemma tb_wf_init: "tb_wf tb_init"
  by (simp add: tb_wf_def root_wf_def tb_init_def rtl_zero_def length_concat sum_list_replicate)

section \<open>Lemmas: tick and reset\<close>

lemma tick_eq:
  "tick eval tb =
     tb\<lparr>rtl := (rtl tb)\<lparr>clk := False,
                         rootp := cycle_root eval (rst (rtl tb)) (rootp (rtl tb))\<rparr>,
        sim_time := (if trace tb then sim_time tb + 2 else sim_time tb),
        cycles_run := cycles_run tb + 1,
        events := events tb @ tick_events (rst (rtl tb)) (trace tb) (sim_time tb)\<rparr>"
proof (cases "trace tb")
  case True
  then show ?thesis
    by (simp add: tick_def Let_def rtl_eval_call_def trace_dump_def emit_def cycle_root_def
        tick_events_def)
next
  case False
  then show ?thesis
    by (simp add: tick_def Let_def rtl_eval_call_def trace_dump_def emit_def cycle_root_def
        tick_events_def)
qed

lemma ticks_eq:
  "fold (\<lambda>i. tick eval) [0..<Suc n] tb =
     tb\<lparr>rtl := (rtl tb)\<lparr>clk := False,
                         rootp := (cycle_root eval (rst (rtl tb)) ^^ Suc n) (rootp (rtl tb))\<rparr>,
        sim_time := (if trace tb then sim_time tb + 2 * of_nat (Suc n) else sim_time tb),
        cycles_run := cycles_run tb + of_nat (Suc n),
        events := events tb @
          concat (map (\<lambda>i. tick_events (rst (rtl tb)) (trace tb) (sim_time tb + 2 * of_nat i))
                      [0..<Suc n])\<rparr>"
proof (induction n)
  case 0
  show ?case by (simp add: tick_eq)
next
  case (Suc n)
  have up: "[0..<Suc (Suc n)] = [0..<Suc n] @ [Suc n]"
    by simp
  have "fold (\<lambda>i. tick eval) [0..<Suc (Suc n)] tb =
        tick eval (fold (\<lambda>i. tick eval) [0..<Suc n] tb)"
    unfolding up by simp
  also note Suc.IH
  finally show ?case
    unfolding up by (simp add: tick_eq tick_events_def algebra_simps del: upt_Suc)
qed

lemma reset_clear_spec:
  "length a = n \<Longrightarrow>
   \<exists>a'. reset_clear i n a = Some a' \<and> length a' = n \<and>
        (\<forall>j<n. a' ! j = (if i \<le> j then 0 else a ! j))"
proof (induction i n a rule: reset_clear.induct)
  case (1 i n a)
  show ?case
  proof (cases "i < n")
    case True
    have st: "array_set a i 0 = Some (a[i := 0])"
      using True 1(2) by (simp add: array_set_def)
    have "length (a[i := 0]) = n" using 1(2) by simp
    from 1(1)[OF True st this] obtain a' where
      a': "reset_clear (i + 1) n (a[i := 0]) = Some a'" "length a' = n"
        "\<forall>j<n. a' ! j = (if i + 1 \<le> j then 0 else a[i := 0] ! j)"
      by auto
    have "reset_clear i n a = Some a'"
      unfolding reset_clear.simps[of i n a] using True st a'(1) by simp
    moreover have "\<forall>j<n. a' ! j = (if i \<le> j then 0 else a ! j)"
      using a'(3) 1(2) True by (auto simp: nth_list_update)
    ultimately show ?thesis using a'(2) by blast
  next
    case False
    then show ?thesis
      using 1(2) unfolding reset_clear.simps[of i n a] by auto
  qed
qed

lemma reset_clear_all: "length a = n \<Longrightarrow> reset_clear 0 n a = Some (replicate n 0)"
proof -
  assume len: "length a = n"
  from reset_clear_spec[OF len, of 0] obtain a' where
    a': "reset_clear 0 n a = Some a'" "length a' = n" "\<forall>j<n. a' ! j = 0"
    by auto
  have "a' = replicate n 0"
    using a'(2,3) by (intro nth_equalityI) simp_all
  with a'(1) show ?thesis by simp
qed

lemma cycle_root_wf:
  "eval_ok eval \<Longrightarrow> root_wf s \<Longrightarrow> root_wf ((cycle_root eval r ^^ n) s)"
  by (induction n) (simp_all add: eval_ok_def cycle_root_def)

lemma reset_eq:
  assumes wf: "tb_wf tb" and ok: "eval_ok eval"
  shows "reset eval tb =
     Some (tb\<lparr>rtl := \<lparr>clk = False, rst = False,
                      rootp = ((cycle_root eval True ^^ 5) (rootp (rtl tb)))
                                \<lparr>regfile_registers := replicate 32 0,
                                 dmem_mem := replicate 1024 0\<rparr>\<rparr>,
              ref := riscv_init (ref tb) (ref_mem_ptr tb) 4096,
              sim_time := (if trace tb then sim_time tb + 10 else sim_time tb),
              cycles_run := cycles_run tb + 5,
              events := events tb @
                concat (map (\<lambda>i. tick_events True (trace tb) (sim_time tb + 2 * of_nat i))
                            [0..<5]) @ [RefInit]\<rparr>)"
proof -
  define tb1 where "tb1 = tb\<lparr>rtl := (rtl tb)\<lparr>rst := True\<rparr>\<rparr>"
  define tb2 where "tb2 = fold (\<lambda>i. tick eval) [0..<5] tb1"
  define s5 where "s5 = (cycle_root eval True ^^ 5) (rootp (rtl tb))"
  have five: "[0..<5] = [0..<Suc 4]" by simp
  have tb2: "tb2 =
     tb\<lparr>rtl := \<lparr>clk = False, rst = True, rootp = s5\<rparr>,
        sim_time := (if trace tb then sim_time tb + 10 else sim_time tb),
        cycles_run := cycles_run tb + 5,
        events := events tb @
          concat (map (\<lambda>i. tick_events True (trace tb) (sim_time tb + 2 * of_nat i))
                      [0..<Suc 4])\<rparr>"
    unfolding tb2_def five ticks_eq
    by (cases "rtl tb") (simp add: tb1_def s5_def del: upt_Suc funpow.simps)
  have "root_wf s5"
    unfolding s5_def using wf ok by (intro cycle_root_wf) (simp_all add: tb_wf_def)
  then have c1: "reset_clear 0 32 (regfile_registers s5) = Some (replicate 32 0)"
    and c2: "reset_clear 0 1024 (dmem_mem s5) = Some (replicate 1024 0)"
    by (simp_all add: root_wf_def reset_clear_all)
  have "reset eval tb =
      reset_clear 0 32 (regfile_registers (rootp (rtl tb2))) \<bind> (\<lambda>rs.
         reset_clear 0 1024 (dmem_mem (rootp (rtl tb2))) \<bind> (\<lambda>dm.
         Some ((emit RefInit (tb2\<lparr>rtl := (rtl tb2)\<lparr>rst := False, rootp :=
                     (rootp (rtl tb2))\<lparr>regfile_registers := rs, dmem_mem := dm\<rparr>\<rparr>\<rparr>))
            \<lparr>ref := riscv_init (ref tb2) (ref_mem_ptr tb2) 4096\<rparr>)))"
    by (simp add: reset_def Let_def tb2_def tb1_def emit_def)
  also have "\<dots> = Some ((emit RefInit (tb2\<lparr>rtl := (rtl tb2)\<lparr>rst := False, rootp :=
                     s5\<lparr>regfile_registers := replicate 32 0, dmem_mem := replicate 1024 0\<rparr>\<rparr>\<rparr>))
            \<lparr>ref := riscv_init (ref tb2) (ref_mem_ptr tb2) 4096\<rparr>)"
    by (simp add: tb2 c1 c2)
  also have "\<dots> = Some (tb\<lparr>rtl := \<lparr>clk = False, rst = False,
                      rootp = s5\<lparr>regfile_registers := replicate 32 0,
                                 dmem_mem := replicate 1024 0\<rparr>\<rparr>,
              ref := riscv_init (ref tb) (ref_mem_ptr tb) 4096,
              sim_time := (if trace tb then sim_time tb + 10 else sim_time tb),
              cycles_run := cycles_run tb + 5,
              events := events tb @
                concat (map (\<lambda>i. tick_events True (trace tb) (sim_time tb + 2 * of_nat i))
                            [0..<5]) @ [RefInit]\<rparr>)"
    unfolding five by (simp add: tb2 emit_def del: upt_Suc)
  finally show ?thesis by (simp add: s5_def)
qed

section \<open>Lemmas: compareState, printState, stepAndCompare\<close>

lemma getRtlReg_events [simp]: "getRtlReg (tb\<lparr>events := evs\<rparr>) i = getRtlReg tb i"
  by (simp add: getRtlReg_def)

lemma getRtlPc_events [simp]: "getRtlPc (tb\<lparr>events := evs\<rparr>) = getRtlPc tb"
  by (simp add: getRtlPc_def)

lemma compare_reg_events_events [simp]:
  "compare_reg_events (tb\<lparr>events := evs\<rparr>) = compare_reg_events tb"
  by (rule ext) (simp add: compare_reg_events_def)

lemma print_reg_events_events [simp]:
  "print_reg_events (tb\<lparr>events := evs\<rparr>) = print_reg_events tb"
  by (rule ext) (simp add: print_reg_events_def)

lemma compareState_reg_eq:
  "compareState_reg i (b, tb) =
     (b \<and> getRtlReg tb i = riscv_get_reg (ref tb) i,
      tb\<lparr>events := events tb @ compare_reg_events tb i\<rparr>)"
  by (simp add: compareState_reg_def Let_def emit_def compare_reg_events_def)

lemma fold_compareState_reg:
  "fold compareState_reg is (b, tb) =
     (b \<and> (\<forall>i\<in>set is. getRtlReg tb i = riscv_get_reg (ref tb) i),
      tb\<lparr>events := events tb @ concat (map (compare_reg_events tb) is)\<rparr>)"
proof (induction "is" arbitrary: b tb)
  case Nil
  show ?case by simp
next
  case (Cons i "is")
  show ?case
    by (simp add: compareState_reg_eq Cons.IH)
qed

lemma compareState_eq:
  "compareState tb =
     (getRtlPc tb = riscv_get_pc (ref tb) \<and>
        (\<forall>i\<in>set [1..<32]. getRtlReg tb i = riscv_get_reg (ref tb) i),
      tb\<lparr>events := events tb @ compare_events tb\<rparr>)"
  by (simp add: compareState_def Let_def emit_def fold_compareState_reg compare_events_def
      del: upt_rec_numeral set_upt)

lemma printState_reg_eq:
  "printState_reg i tb = tb\<lparr>events := events tb @ print_reg_events tb i\<rparr>"
  by (simp add: printState_reg_def Let_def emit_def print_reg_events_def)

lemma fold_printState_reg:
  "fold printState_reg is tb = tb\<lparr>events := events tb @ concat (map (print_reg_events tb) is)\<rparr>"
proof (induction "is" arbitrary: tb)
  case Nil
  show ?case by simp
next
  case (Cons i "is")
  show ?case
    by (simp add: Cons.IH, simp add: printState_reg_eq)
qed

lemma printState_eq: "printState tb = tb\<lparr>events := events tb @ print_events tb\<rparr>"
  by (simp add: printState_def Let_def emit_def fold_printState_reg print_events_def
      del: upt_rec_numeral)

lemma compare_events_report: "e \<in> set (compare_events tb) \<Longrightarrow> is_report e"
  by (auto simp: compare_events_def compare_reg_events_def simp del: upt_rec_numeral
      split: if_splits)

lemma print_events_report: "e \<in> set (print_events tb) \<Longrightarrow> is_report e"
  by (auto simp: print_events_def print_reg_events_def simp del: upt_rec_numeral
      split: if_splits)

lemma stepAndCompare_eq:
  "stepAndCompare eval step tb =
     (tick eval tb)\<lparr>ref := fst (step (ref tb) (ref_mem tb)),
                    ref_mem := snd (step (ref tb) (ref_mem tb)),
                    events := events (tick eval tb) @ [RefStep]\<rparr>"
  by (simp add: stepAndCompare_def Let_def emit_def tick_eq split_beta)

section \<open>Lemmas: counting events\<close>

lemma occurrences_append [simp]:
  "occurrences e (xs @ ys) = occurrences e xs + occurrences e ys"
  by (simp add: occurrences_def)

lemma occurrences_Cons [simp]:
  "occurrences e (x # xs) = (if x = e then 1 else 0) + occurrences e xs"
  by (simp add: occurrences_def)

lemma occurrences_Nil [simp]: "occurrences e [] = 0"
  by (simp add: occurrences_def)

lemma occurrences_report:
  "(\<And>x. x \<in> set xs \<Longrightarrow> is_report x) \<Longrightarrow> \<not> is_report e \<Longrightarrow> occurrences e xs = 0"
  by (auto simp: occurrences_def filter_empty_conv)

lemma filter_report:
  "(\<And>x. x \<in> set xs \<Longrightarrow> is_report x) \<Longrightarrow> (\<And>x. is_report x \<Longrightarrow> \<not> P x) \<Longrightarrow> filter P xs = []"
  by (auto simp: filter_empty_conv)

lemma is_OutFail_report: "is_report x \<Longrightarrow> \<not> is_OutFail x"
  by (cases x) (simp_all add: is_OutFail_def)

lemma is_RtlEval_report: "is_report x \<Longrightarrow> \<not> is_RtlEval x"
  by (cases x) (simp_all add: is_RtlEval_def)

section \<open>Lemmas: comparison rounds and the loop of runTest\<close>

lemma comparison_round_eq:
  "comparison_round eval step tb =
     (stepAndCompare eval step tb)
       \<lparr>events := events (stepAndCompare eval step tb) @
                  compare_events (stepAndCompare eval step tb)\<rparr>"
  by (simp add: comparison_round_def compareState_eq)

lemma round_matches_eq:
  "round_matches eval step tb \<longleftrightarrow>
     getRtlPc (stepAndCompare eval step tb) = riscv_get_pc (ref (stepAndCompare eval step tb)) \<and>
     (\<forall>i\<in>set [1..<32]. getRtlReg (stepAndCompare eval step tb) i =
                         riscv_get_reg (ref (stepAndCompare eval step tb)) i)"
  by (simp add: round_matches_def compareState_eq del: upt_rec_numeral set_upt)

lemma round_events:
  "events (comparison_round eval step tb) =
     events tb @ tick_events (rst (rtl tb)) (trace tb) (sim_time tb) @ [RefStep] @
     compare_events (stepAndCompare eval step tb)"
  by (simp add: comparison_round_eq) (simp add: stepAndCompare_eq tick_eq)

lemma tick_events_simps:
  "occurrences RefStep (tick_events r tr t) = 0"
  "filter is_OutFail (tick_events r tr t) = []"
  by (simp_all add: tick_events_def is_OutFail_def)

lemma round_frame:
  "tests_passed (comparison_round eval step tb) = tests_passed tb"
  "tests_failed (comparison_round eval step tb) = tests_failed tb"
  "cycles_run (comparison_round eval step tb) = cycles_run tb + 1"
  "occurrences RefStep (events (comparison_round eval step tb)) =
     occurrences RefStep (events tb) + 1"
  "filter is_OutFail (events (comparison_round eval step tb)) = filter is_OutFail (events tb)"
  "trace (comparison_round eval step tb) = trace tb"
  "ref_mem_ptr (comparison_round eval step tb) = ref_mem_ptr tb"
proof -
  show "tests_passed (comparison_round eval step tb) = tests_passed tb"
    "tests_failed (comparison_round eval step tb) = tests_failed tb"
    "cycles_run (comparison_round eval step tb) = cycles_run tb + 1"
    "trace (comparison_round eval step tb) = trace tb"
    "ref_mem_ptr (comparison_round eval step tb) = ref_mem_ptr tb"
    by (simp_all add: comparison_round_eq stepAndCompare_eq tick_eq)
  have rep: "occurrences RefStep (compare_events (stepAndCompare eval step tb)) = 0"
    by (rule occurrences_report) (simp_all add: compare_events_report)
  show "occurrences RefStep (events (comparison_round eval step tb)) =
     occurrences RefStep (events tb) + 1"
    by (simp add: round_events tick_events_simps rep)
  have "filter is_OutFail (compare_events (stepAndCompare eval step tb)) = []"
    by (rule filter_report) (simp_all add: compare_events_report is_OutFail_report)
  then show "filter is_OutFail (events (comparison_round eval step tb)) =
      filter is_OutFail (events tb)"
    by (simp add: round_events tick_events_simps is_OutFail_def)
qed

lemma round_wf:
  assumes "tb_wf tb" "eval_ok eval" "step_ok step"
  shows "tb_wf (comparison_round eval step tb)"
  using assms
  by (simp add: comparison_round_eq stepAndCompare_eq tick_eq tb_wf_def eval_ok_def
      step_ok_def cycle_root_def)

lemma after_rounds_0 [simp]: "after_rounds eval step 0 tb = tb"
  by (simp add: after_rounds_def)

lemma after_rounds_Suc:
  "after_rounds eval step (Suc k) tb =
     comparison_round eval step (after_rounds eval step k tb)"
  by (simp add: after_rounds_def)

lemma after_rounds_Suc2:
  "after_rounds eval step (Suc k) tb =
     after_rounds eval step k (comparison_round eval step tb)"
  by (simp add: after_rounds_def funpow_swap1)

lemma after_rounds_frame:
  "tests_passed (after_rounds eval step k tb) = tests_passed tb"
  "tests_failed (after_rounds eval step k tb) = tests_failed tb"
  "cycles_run (after_rounds eval step k tb) = cycles_run tb + of_nat k"
  "occurrences RefStep (events (after_rounds eval step k tb)) =
     occurrences RefStep (events tb) + k"
  "filter is_OutFail (events (after_rounds eval step k tb)) = filter is_OutFail (events tb)"
  "trace (after_rounds eval step k tb) = trace tb"
  "ref_mem_ptr (after_rounds eval step k tb) = ref_mem_ptr tb"
  by (induction k) (simp_all add: after_rounds_Suc round_frame)

lemma after_rounds_wf:
  "tb_wf tb \<Longrightarrow> eval_ok eval \<Longrightarrow> step_ok step \<Longrightarrow> tb_wf (after_rounds eval step k tb)"
  by (induction k) (simp_all add: after_rounds_Suc round_wf)

lemma runTest_loop_step:
  "i < cycles \<Longrightarrow>
   runTest_loop eval step i cycles tb =
     (if round_matches eval step tb
      then runTest_loop eval step (i + 1) cycles (comparison_round eval step tb)
      else (False, printState (emit (ErrMismatchAtCycle i) (comparison_round eval step tb))))"
  unfolding runTest_loop.simps[of eval step i cycles tb]
  by (simp add: Let_def split_beta round_matches_def comparison_round_def)

lemma runTest_loop_done:
  "\<not> i < cycles \<Longrightarrow> runTest_loop eval step i cycles tb = (True, tb)"
  unfolding runTest_loop.simps[of eval step i cycles tb] by simp

lemma runTest_loop_pass:
  "n = nat (cycles - i) \<Longrightarrow>
   (\<And>k. k < n \<Longrightarrow> round_matches eval step (after_rounds eval step k tb)) \<Longrightarrow>
   runTest_loop eval step i cycles tb = (True, after_rounds eval step n tb)"
proof (induction n arbitrary: i tb)
  case 0
  then show ?case by (simp add: runTest_loop_done)
next
  case (Suc n)
  from Suc.prems(1) have lt: "i < cycles" and n: "n = nat (cycles - (i + 1))" by simp_all
  have m0: "round_matches eval step tb" using Suc.prems(2)[of 0] by simp
  have "runTest_loop eval step (i + 1) cycles (comparison_round eval step tb) =
        (True, after_rounds eval step n (comparison_round eval step tb))"
  proof (rule Suc.IH[OF n])
    fix k assume "k < n"
    then show "round_matches eval step
                 (after_rounds eval step k (comparison_round eval step tb))"
      using Suc.prems(2)[of "Suc k"] by (simp add: after_rounds_Suc2)
  qed
  then show ?case
    by (simp add: runTest_loop_step[OF lt] m0 after_rounds_Suc2)
qed

lemma runTest_loop_fail:
  "i + int k < cycles \<Longrightarrow>
   (\<And>j. j < k \<Longrightarrow> round_matches eval step (after_rounds eval step j tb)) \<Longrightarrow>
   \<not> round_matches eval step (after_rounds eval step k tb) \<Longrightarrow>
   runTest_loop eval step i cycles tb =
     (False, printState (emit (ErrMismatchAtCycle (i + int k))
                           (after_rounds eval step (Suc k) tb)))"
proof (induction k arbitrary: i tb)
  case 0
  then show ?case
    by (simp add: runTest_loop_step after_rounds_Suc)
next
  case (Suc k)
  from Suc.prems(1) have lt: "i < cycles" and lt': "(i + 1) + int k < cycles" by simp_all
  have m0: "round_matches eval step tb" using Suc.prems(2)[of 0] by simp
  have "runTest_loop eval step (i + 1) cycles (comparison_round eval step tb) =
        (False, printState (emit (ErrMismatchAtCycle ((i + 1) + int k))
                 (after_rounds eval step (Suc k) (comparison_round eval step tb))))"
  proof (rule Suc.IH[OF lt'])
    fix j assume "j < k"
    then show "round_matches eval step
                 (after_rounds eval step j (comparison_round eval step tb))"
      using Suc.prems(2)[of "Suc j"] by (simp add: after_rounds_Suc2)
  next
    show "\<not> round_matches eval step
             (after_rounds eval step k (comparison_round eval step tb))"
      using Suc.prems(3) by (simp add: after_rounds_Suc2)
  qed
  then show ?case
    by (simp add: runTest_loop_step[OF lt] m0 after_rounds_Suc2[of _ _ "Suc k"] add.assoc)
qed

section \<open>Lemmas: runTest\<close>

lemma tb_wf_emit [simp]: "tb_wf (emit e tb) = tb_wf tb"
  by (simp add: tb_wf_def emit_def)

lemma prepared_eq:
  assumes wf: "tb_wf tb" and ok: "eval_ok eval"
  shows "\<exists>m im. prepared eval name program tb =
     Some (tb\<lparr>rtl := \<lparr>clk = False, rst = False,
                      rootp = ((cycle_root eval True ^^ 5) ((rootp (rtl tb))\<lparr>imem_mem := im\<rparr>))
                                \<lparr>regfile_registers := replicate 32 0,
                                 dmem_mem := replicate 1024 0\<rparr>\<rparr>,
              ref := riscv_init (ref tb) (ref_mem_ptr tb) 4096,
              ref_mem := m,
              sim_time := (if trace tb then sim_time tb + 10 else sim_time tb),
              cycles_run := cycles_run tb + 5,
              events := events tb @ [OutRunning name] @
                concat (map (\<lambda>i. tick_events True (trace tb) (sim_time tb + 2 * of_nat i))
                            [0..<5]) @ [RefInit]\<rparr>) \<and>
      length m = 4096 \<and> length im = 1024 \<and>
      (\<forall>k<4096. m ! k =
             (if k div 4 < length program
              then ucast (drop_bit (8 * (k mod 4)) (program ! (k div 4)) AND 0xFF)
              else ref_mem tb ! k)) \<and>
      (\<forall>j<1024. im ! j = (if j < length program then program ! j else 0x13))"
proof -
  define tb1 where "tb1 = emit (OutRunning name) tb"
  have wf1: "tb_wf tb1" using wf by (simp add: tb1_def)
  from loadProgram_spec[OF wf1, of program] obtain m im where
    r: "loadProgram program tb1 =
            Some (tb1\<lparr>ref_mem := m,
                     rtl := (rtl tb1)\<lparr>rootp := (rootp (rtl tb1))\<lparr>imem_mem := im\<rparr>\<rparr>\<rparr>)"
      "length m = 4096" "length im = 1024"
      "\<forall>k<4096. m ! k =
             (if k div 4 < length program
              then ucast (drop_bit (8 * (k mod 4)) (program ! (k div 4)) AND 0xFF)
              else ref_mem tb1 ! k)"
      "\<forall>j<1024. im ! j = (if j < length program then program ! j else 0x13)"
    by blast
  define tb2 where "tb2 = tb1\<lparr>ref_mem := m,
                     rtl := (rtl tb1)\<lparr>rootp := (rootp (rtl tb1))\<lparr>imem_mem := im\<rparr>\<rparr>\<rparr>"
  have wf2: "tb_wf tb2"
    using wf1 r(2,3) by (simp add: tb2_def tb_wf_def root_wf_def)
  have "prepared eval name program tb = reset eval tb2"
    by (simp add: prepared_def tb1_def[symmetric] r(1) tb2_def)
  also note reset_eq[OF wf2 ok]
  finally have "prepared eval name program tb =
     Some (tb\<lparr>rtl := \<lparr>clk = False, rst = False,
                      rootp = ((cycle_root eval True ^^ 5) ((rootp (rtl tb))\<lparr>imem_mem := im\<rparr>))
                                \<lparr>regfile_registers := replicate 32 0,
                                 dmem_mem := replicate 1024 0\<rparr>\<rparr>,
              ref := riscv_init (ref tb) (ref_mem_ptr tb) 4096,
              ref_mem := m,
              sim_time := (if trace tb then sim_time tb + 10 else sim_time tb),
              cycles_run := cycles_run tb + 5,
              events := events tb @ [OutRunning name] @
                concat (map (\<lambda>i. tick_events True (trace tb) (sim_time tb + 2 * of_nat i))
                            [0..<5]) @ [RefInit]\<rparr>)"
    by (simp add: tb2_def tb1_def emit_def del: upt_rec_numeral)
  moreover have "\<forall>k<4096. m ! k =
             (if k div 4 < length program
              then ucast (drop_bit (8 * (k mod 4)) (program ! (k div 4)) AND 0xFF)
              else ref_mem tb ! k)"
    using r(4) by (simp add: tb1_def emit_def)
  ultimately show ?thesis using r(2,3,5) by blast
qed

lemma ticks_quiet:
  "occurrences RefStep (concat (map (\<lambda>i. tick_events r tr (f i)) is)) = 0"
  "filter is_OutFail (concat (map (\<lambda>i. tick_events r tr (f i)) is)) = []"
  by (induction "is") (simp_all add: tick_events_simps)

lemma prepared_frame:
  assumes wf: "tb_wf tb" and ok: "eval_ok eval"
  shows "\<exists>tb0. prepared eval name program tb = Some tb0 \<and> tb_wf tb0 \<and>
      tests_passed tb0 = tests_passed tb \<and> tests_failed tb0 = tests_failed tb \<and>
      cycles_run tb0 = cycles_run tb + 5 \<and>
      occurrences RefStep (events tb0) = occurrences RefStep (events tb) \<and>
      filter is_OutFail (events tb0) = filter is_OutFail (events tb) \<and>
      trace tb0 = trace tb \<and> ref_mem_ptr tb0 = ref_mem_ptr tb"
proof -
  from prepared_eq[OF wf ok, of name program] obtain m im where
    p: "prepared eval name program tb =
     Some (tb\<lparr>rtl := \<lparr>clk = False, rst = False,
                      rootp = ((cycle_root eval True ^^ 5) ((rootp (rtl tb))\<lparr>imem_mem := im\<rparr>))
                                \<lparr>regfile_registers := replicate 32 0,
                                 dmem_mem := replicate 1024 0\<rparr>\<rparr>,
              ref := riscv_init (ref tb) (ref_mem_ptr tb) 4096,
              ref_mem := m,
              sim_time := (if trace tb then sim_time tb + 10 else sim_time tb),
              cycles_run := cycles_run tb + 5,
              events := events tb @ [OutRunning name] @
                concat (map (\<lambda>i. tick_events True (trace tb) (sim_time tb + 2 * of_nat i))
                            [0..<5]) @ [RefInit]\<rparr>)"
      and len: "length m = 4096" "length im = 1024"
    by blast
  have "root_wf ((rootp (rtl tb))\<lparr>imem_mem := im\<rparr>)"
    using wf len by (simp add: tb_wf_def root_wf_def)
  then have "root_wf ((cycle_root eval True ^^ 5) ((rootp (rtl tb))\<lparr>imem_mem := im\<rparr>))"
    by (rule cycle_root_wf[OF ok])
  then have wf0: "root_wf (((cycle_root eval True ^^ 5) ((rootp (rtl tb))\<lparr>imem_mem := im\<rparr>))
                                \<lparr>regfile_registers := replicate 32 0,
                                 dmem_mem := replicate 1024 0\<rparr>)"
    by (simp add: root_wf_def)
  have occ: "occurrences RefStep
      (concat (map (\<lambda>i. tick_events True (trace tb) (sim_time tb + 2 * of_nat i)) [0..<5])) = 0"
    by (rule ticks_quiet)
  have fl: "filter is_OutFail
      (concat (map (\<lambda>i. tick_events True (trace tb) (sim_time tb + 2 * of_nat i)) [0..<5])) = []"
    by (rule ticks_quiet)
  show ?thesis
    unfolding p using wf0 len occ fl
    by (simp add: tb_wf_def is_OutFail_def del: upt_rec_numeral)
qed

lemma runTest_eq:
  "runTest eval step name program cycles tb =
     prepared eval name program tb \<bind> (\<lambda>tb0.
       Some (printState
         (if fst (runTest_loop eval step 0 cycles tb0)
          then (emit (OutPass name) (snd (runTest_loop eval step 0 cycles tb0)))
                 \<lparr>tests_passed := tests_passed (snd (runTest_loop eval step 0 cycles tb0)) + 1\<rparr>
          else (emit (OutFail name) (snd (runTest_loop eval step 0 cycles tb0)))
                 \<lparr>tests_failed := tests_failed (snd (runTest_loop eval step 0 cycles tb0)) + 1\<rparr>)))"
  by (simp add: runTest_def prepared_def Let_def split_beta)

lemma first_mismatch_cases:
  "(\<forall>k<N. ok k) \<or> (\<exists>k<N. (\<forall>j<k. ok j) \<and> \<not> ok (k::nat))"
proof (cases "\<exists>k. k < N \<and> \<not> ok k")
  case True
  then obtain k where k: "k < N \<and> \<not> ok k" "\<forall>j<k. \<not> (j < N \<and> \<not> ok j)"
    using exists_least_iff[of "\<lambda>k. k < N \<and> \<not> ok k"] by blast
  then have "\<forall>j<k. ok j" by auto
  with k(1) show ?thesis by blast
next
  case False
  then show ?thesis by blast
qed

lemma runTest_pass:
  assumes p: "prepared eval name program tb = Some tb0"
    and ok: "\<forall>k<nat cycles. round_matches eval step (after_rounds eval step k tb0)"
  shows "runTest eval step name program cycles tb =
     Some (printState ((emit (OutPass name) (after_rounds eval step (nat cycles) tb0))
                         \<lparr>tests_passed := tests_passed tb0 + 1\<rparr>))"
proof -
  have "runTest_loop eval step 0 cycles tb0 = (True, after_rounds eval step (nat cycles) tb0)"
    using ok by (intro runTest_loop_pass) simp_all
  then show ?thesis
    by (simp add: runTest_eq p after_rounds_frame)
qed

lemma runTest_fail:
  assumes p: "prepared eval name program tb = Some tb0"
    and k: "k < nat cycles"
    and ok: "\<forall>j<k. round_matches eval step (after_rounds eval step j tb0)"
    and bad: "\<not> round_matches eval step (after_rounds eval step k tb0)"
  shows "runTest eval step name program cycles tb =
     Some (printState ((emit (OutFail name)
             (printState (emit (ErrMismatchAtCycle (int k))
                (after_rounds eval step (Suc k) tb0))))
                         \<lparr>tests_failed := tests_failed tb0 + 1\<rparr>))"
proof -
  have "runTest_loop eval step 0 cycles tb0 =
     (False, printState (emit (ErrMismatchAtCycle (0 + int k))
                           (after_rounds eval step (Suc k) tb0)))"
    using k ok bad by (intro runTest_loop_fail) simp_all
  then show ?thesis
    by (simp add: runTest_eq p printState_eq emit_def after_rounds_frame)
qed

lemma print_events_quiet:
  "occurrences RefStep (print_events tb) = 0"
  "filter is_OutFail (print_events tb) = []"
proof -
  show "occurrences RefStep (print_events tb) = 0"
    by (rule occurrences_report) (simp_all add: print_events_report)
  show "filter is_OutFail (print_events tb) = []"
    by (rule filter_report) (simp_all add: print_events_report is_OutFail_report)
qed

lemma pass_result_frame:
  fixes tb1 :: Testbench and name :: string and n :: int32
  defines "r \<equiv> printState ((emit (OutPass name) tb1)\<lparr>tests_passed := n\<rparr>)"
  shows "tests_passed r = n" "tests_failed r = tests_failed tb1"
    "cycles_run r = cycles_run tb1"
    "occurrences RefStep (events r) = occurrences RefStep (events tb1)"
    "filter is_OutFail (events r) = filter is_OutFail (events tb1)"
    "tb_wf r = tb_wf tb1"
  by (simp_all add: r_def printState_eq emit_def print_events_quiet is_OutFail_def tb_wf_def)

lemma fail_result_frame:
  fixes tb1 :: Testbench and name :: string and n :: int32 and k :: int
  defines "r \<equiv> printState ((emit (OutFail name)
             (printState (emit (ErrMismatchAtCycle k) tb1)))\<lparr>tests_failed := n\<rparr>)"
  shows "tests_passed r = tests_passed tb1" "tests_failed r = n"
    "cycles_run r = cycles_run tb1"
    "occurrences RefStep (events r) = occurrences RefStep (events tb1)"
    "filter is_OutFail (events r) = filter is_OutFail (events tb1) @ [OutFail name]"
    "tb_wf r = tb_wf tb1"
  by (simp_all add: r_def printState_eq emit_def print_events_quiet is_OutFail_def tb_wf_def)

lemma runTest_outcome:
  assumes wf: "tb_wf tb" and ok: "eval_ok eval"
  shows "\<exists>tb0. prepared eval name program tb = Some tb0 \<and> tb_wf tb0 \<and>
      tests_passed tb0 = tests_passed tb \<and> tests_failed tb0 = tests_failed tb \<and>
      cycles_run tb0 = cycles_run tb + 5 \<and>
      occurrences RefStep (events tb0) = occurrences RefStep (events tb) \<and>
      filter is_OutFail (events tb0) = filter is_OutFail (events tb) \<and>
      (runTest eval step name program cycles tb =
         Some (printState ((emit (OutPass name) (after_rounds eval step (nat cycles) tb0))
                            \<lparr>tests_passed := tests_passed tb0 + 1\<rparr>)) \<or>
       (\<exists>k<nat cycles. runTest eval step name program cycles tb =
         Some (printState ((emit (OutFail name)
                (printState (emit (ErrMismatchAtCycle (int k))
                   (after_rounds eval step (Suc k) tb0))))
                            \<lparr>tests_failed := tests_failed tb0 + 1\<rparr>))))"
proof -
  from prepared_frame[OF wf ok, of name program] obtain tb0 where
    p: "prepared eval name program tb = Some tb0"
    and fr: "tb_wf tb0" "tests_passed tb0 = tests_passed tb" "tests_failed tb0 = tests_failed tb"
      "cycles_run tb0 = cycles_run tb + 5"
      "occurrences RefStep (events tb0) = occurrences RefStep (events tb)"
      "filter is_OutFail (events tb0) = filter is_OutFail (events tb)"
    by blast
  let ?ok = "\<lambda>k. round_matches eval step (after_rounds eval step k tb0)"
  from first_mismatch_cases[of "nat cycles" ?ok]
  have "runTest eval step name program cycles tb =
         Some (printState ((emit (OutPass name) (after_rounds eval step (nat cycles) tb0))
                            \<lparr>tests_passed := tests_passed tb0 + 1\<rparr>)) \<or>
       (\<exists>k<nat cycles. runTest eval step name program cycles tb =
         Some (printState ((emit (OutFail name)
                (printState (emit (ErrMismatchAtCycle (int k))
                   (after_rounds eval step (Suc k) tb0))))
                            \<lparr>tests_failed := tests_failed tb0 + 1\<rparr>)))"
  proof (elim disjE exE conjE)
    assume "\<forall>k<nat cycles. ?ok k"
    from runTest_pass[OF p this] show ?thesis by blast
  next
    fix k assume "k < nat cycles" "\<forall>j<k. ?ok j" "\<not> ?ok k"
    from runTest_fail[OF p this] \<open>k < nat cycles\<close> show ?thesis by blast
  qed
  with p fr show ?thesis by blast
qed

lemma runTest_summary:
  assumes wf: "tb_wf tb" and ok: "eval_ok eval" and sok: "step_ok step"
    and tp: "tests_passed tb = of_nat p"
    and tf: "tests_failed tb = of_nat (length (filter is_OutFail (events tb)))"
  shows "\<exists>tb' p'. runTest eval step name program cycles tb = Some tb' \<and> tb_wf tb' \<and>
      tests_passed tb' = of_nat p' \<and>
      tests_failed tb' = of_nat (length (filter is_OutFail (events tb'))) \<and>
      p' + length (filter is_OutFail (events tb')) =
        p + length (filter is_OutFail (events tb)) + 1"
proof -
  from runTest_outcome[OF wf ok, of name program step cycles] obtain tb0 where
    fr: "tb_wf tb0" "tests_passed tb0 = tests_passed tb" "tests_failed tb0 = tests_failed tb"
      "filter is_OutFail (events tb0) = filter is_OutFail (events tb)"
    and out: "runTest eval step name program cycles tb =
         Some (printState ((emit (OutPass name) (after_rounds eval step (nat cycles) tb0))
                            \<lparr>tests_passed := tests_passed tb0 + 1\<rparr>)) \<or>
       (\<exists>k<nat cycles. runTest eval step name program cycles tb =
         Some (printState ((emit (OutFail name)
                (printState (emit (ErrMismatchAtCycle (int k))
                   (after_rounds eval step (Suc k) tb0))))
                            \<lparr>tests_failed := tests_failed tb0 + 1\<rparr>)))"
    by blast
  have wfk: "tb_wf (after_rounds eval step k tb0)" for k
    by (rule after_rounds_wf[OF fr(1) ok sok])
  from out show ?thesis
  proof (elim disjE exE conjE)
    assume r: "runTest eval step name program cycles tb =
         Some (printState ((emit (OutPass name) (after_rounds eval step (nat cycles) tb0))
                            \<lparr>tests_passed := tests_passed tb0 + 1\<rparr>))"
    let ?t = "printState ((emit (OutPass name) (after_rounds eval step (nat cycles) tb0))
                            \<lparr>tests_passed := tests_passed tb0 + 1\<rparr>)"
    have "tb_wf ?t \<and> tests_passed ?t = of_nat (Suc p) \<and>
      tests_failed ?t = of_nat (length (filter is_OutFail (events ?t))) \<and>
      Suc p + length (filter is_OutFail (events ?t)) =
        p + length (filter is_OutFail (events tb)) + 1"
      by (simp add: pass_result_frame after_rounds_frame fr wfk tp tf)
    with r show ?thesis by blast
  next
    fix k
    assume r: "runTest eval step name program cycles tb =
         Some (printState ((emit (OutFail name)
                (printState (emit (ErrMismatchAtCycle (int k))
                   (after_rounds eval step (Suc k) tb0))))
                            \<lparr>tests_failed := tests_failed tb0 + 1\<rparr>))"
    let ?t = "printState ((emit (OutFail name)
                (printState (emit (ErrMismatchAtCycle (int k))
                   (after_rounds eval step (Suc k) tb0))))
                            \<lparr>tests_failed := tests_failed tb0 + 1\<rparr>)"
    have "tb_wf ?t \<and> tests_passed ?t = of_nat p \<and>
      tests_failed ?t = of_nat (length (filter is_OutFail (events ?t))) \<and>
      p + length (filter is_OutFail (events ?t)) =
        p + length (filter is_OutFail (events tb)) + 1"
      by (simp add: fail_result_frame after_rounds_frame fr wfk tp tf)
    with r show ?thesis by blast
  qed
qed

section \<open>Lemmas: the toy models\<close>

lemma eval_ok_hold: "eval_ok eval_hold"
  by (simp add: eval_ok_def eval_hold_def)

lemma step_ok_hold: "step_ok step_hold"
  by (simp add: step_ok_def step_hold_def)

lemma step_ok_pc4: "step_ok step_pc4"
  by (simp add: step_ok_def step_pc4_def)

lemma cycle_root_hold: "(cycle_root eval_hold r ^^ n) s = s"
  by (induction n) (simp_all add: cycle_root_def eval_hold_def)

lemma round_matches_agree:
  "round_matches eval step tb = states_agree (stepAndCompare eval step tb)"
  by (simp add: round_matches_eq states_agree_def list_all_iff del: upt_rec_numeral set_upt)

lemma states_agree_round:
  "states_agree (comparison_round eval step tb) = states_agree (stepAndCompare eval step tb)"
  by (simp add: comparison_round_eq states_agree_def)

lemma hold_hold_step:
  "states_agree (stepAndCompare eval_hold step_hold tb) = states_agree tb"
  by (simp add: states_agree_def stepAndCompare_eq tick_eq getRtlPc_def getRtlReg_def
      step_hold_def cycle_root_def eval_hold_def)

lemma hold_hold_rounds:
  "states_agree tb \<Longrightarrow> states_agree (after_rounds eval_hold step_hold k tb)"
  by (induction k) (simp_all add: after_rounds_Suc states_agree_round hold_hold_step)

lemma hold_hold_matches:
  "states_agree tb \<Longrightarrow> round_matches eval_hold step_hold (after_rounds eval_hold step_hold k tb)"
  by (simp add: round_matches_agree hold_hold_step hold_hold_rounds)

lemma hold_pc4_mismatch:
  "states_agree tb \<Longrightarrow> \<not> round_matches eval_hold step_pc4 tb"
  by (simp add: round_matches_agree states_agree_def stepAndCompare_eq tick_eq getRtlPc_def
      step_pc4_def cycle_root_def eval_hold_def riscv_get_pc_def)

lemma hold_prepared_agree:
  assumes "prepared eval_hold name program tb_init = Some tb0"
  shows "states_agree tb0"
proof -
  from prepared_eq[OF tb_wf_init eval_ok_hold, of name program] assms
  obtain m im where
    "tb0 = tb_init\<lparr>rtl := \<lparr>clk = False, rst = False,
                      rootp = ((cycle_root eval_hold True ^^ 5)
                                 ((rootp (rtl tb_init))\<lparr>imem_mem := im\<rparr>))
                                \<lparr>regfile_registers := replicate 32 0,
                                 dmem_mem := replicate 1024 0\<rparr>\<rparr>,
              ref := riscv_init (ref tb_init) (ref_mem_ptr tb_init) 4096,
              ref_mem := m,
              sim_time := (if trace tb_init then sim_time tb_init + 10 else sim_time tb_init),
              cycles_run := cycles_run tb_init + 5,
              events := events tb_init @ [OutRunning name] @
                concat (map (\<lambda>i. tick_events True (trace tb_init)
                                     (sim_time tb_init + 2 * of_nat i))
                            [0..<5]) @ [RefInit]\<rparr>"
    by auto
  then show ?thesis
    by (simp add: states_agree_def cycle_root_hold getRtlPc_def getRtlReg_def riscv_get_pc_def
        riscv_get_reg_def riscv_init_def tb_init_def rtl_zero_def list_all_iff
        del: upt_rec_numeral)
qed

lemma is_OutFail_D: "is_OutFail e \<Longrightarrow> \<exists>name. e = OutFail name"
  by (cases e) (simp_all add: is_OutFail_def)

lemma Testbench_new_eq:
  "Testbench_new rtl0 p cpu0 =
     Some \<lparr>rtl = rtl0, ref = riscv_init cpu0 p 4096, trace = False,
           sim_time = 0, ref_mem_ptr = p, ref_mem = concat (replicate 1024 [0x13, 0, 0, 0]),
           tests_passed = 0, tests_failed = 0, cycles_run = 0, events = [RefInit]\<rparr>"
  by (simp add: Testbench_new_def Testbench_fill_init)

lemma ticks_filter_eval:
  "filter is_RtlEval (concat (map (\<lambda>i. tick_events r tr (f i)) is)) =
     concat (replicate (length is) [RtlEval True r, RtlEval False r])"
  by (induction "is") (simp_all add: tick_events_def is_RtlEval_def)

lemma eval_ok_pc4: "eval_ok eval_pc4"
  by (simp add: eval_ok_def eval_pc4_def root_wf_def)

lemma compare_events_agree:
  "states_agree tb \<Longrightarrow> compare_events tb = RefGetPc # map RefGetReg [1..<32]"
proof -
  assume a: "states_agree tb"
  have "concat (map (compare_reg_events tb) is) = map RefGetReg is"
    if "\<forall>i\<in>set is. getRtlReg tb i = riscv_get_reg (ref tb) i" for "is"
    using that by (induction "is") (simp_all add: compare_reg_events_def)
  with a show ?thesis
    by (simp add: states_agree_def compare_events_def list_all_iff del: upt_rec_numeral)
qed

lemma states_agree_init: "states_agree tb_init"
  by (simp add: states_agree_def getRtlPc_def getRtlReg_def riscv_get_pc_def riscv_get_reg_def
      tb_init_def rtl_zero_def cpu_zero_def list_all_iff del: upt_rec_numeral)

lemma hold_round_pc:
  "cpu_top_pc (rootp (rtl (comparison_round eval_hold step tb))) = cpu_top_pc (rootp (rtl tb))"
  by (simp add: comparison_round_eq stepAndCompare_eq tick_eq cycle_root_def eval_hold_def)

lemma hold_rounds_pc:
  "cpu_top_pc (rootp (rtl (after_rounds eval_hold step k tb))) = cpu_top_pc (rootp (rtl tb))"
  by (induction k) (simp_all add: after_rounds_Suc hold_round_pc)

lemma hold_prepared:
  assumes wf: "tb_wf tb" and pc: "cpu_top_pc (rootp (rtl tb)) = 0"
    and p: "prepared eval_hold name program tb = Some tb0"
  shows "states_agree tb0" "cpu_top_pc (rootp (rtl tb0)) = 0"
proof -
  from prepared_eq[OF wf eval_ok_hold, of name program] p
  obtain m im where
    tb0: "tb0 = tb\<lparr>rtl := \<lparr>clk = False, rst = False,
                      rootp = ((cycle_root eval_hold True ^^ 5)
                                 ((rootp (rtl tb))\<lparr>imem_mem := im\<rparr>))
                                \<lparr>regfile_registers := replicate 32 0,
                                 dmem_mem := replicate 1024 0\<rparr>\<rparr>,
              ref := riscv_init (ref tb) (ref_mem_ptr tb) 4096,
              ref_mem := m,
              sim_time := (if trace tb then sim_time tb + 10 else sim_time tb),
              cycles_run := cycles_run tb + 5,
              events := events tb @ [OutRunning name] @
                concat (map (\<lambda>i. tick_events True (trace tb) (sim_time tb + 2 * of_nat i))
                            [0..<5]) @ [RefInit]\<rparr>"
    by auto
  show "cpu_top_pc (rootp (rtl tb0)) = 0"
    unfolding tb0 by (simp add: cycle_root_hold pc)
  show "states_agree tb0"
    unfolding tb0
    by (simp add: states_agree_def cycle_root_hold getRtlPc_def getRtlReg_def riscv_get_pc_def
        riscv_get_reg_def riscv_init_def pc list_all_iff del: upt_rec_numeral)
qed

lemma hold_hold_runTest:
  assumes wf: "tb_wf tb" and pc: "cpu_top_pc (rootp (rtl tb)) = 0"
  shows "\<exists>tb'. runTest eval_hold step_hold name program cycles tb = Some tb' \<and>
      tb_wf tb' \<and> cpu_top_pc (rootp (rtl tb')) = 0 \<and>
      tests_passed tb' = tests_passed tb + 1 \<and> tests_failed tb' = tests_failed tb"
proof -
  from prepared_frame[OF wf eval_ok_hold, of name program] obtain tb0 where
    p: "prepared eval_hold name program tb = Some tb0" and wf0: "tb_wf tb0"
    and fr: "tests_passed tb0 = tests_passed tb" "tests_failed tb0 = tests_failed tb"
    by blast
  note ag = hold_prepared[OF wf pc p]
  have "\<forall>k<nat cycles. round_matches eval_hold step_hold (after_rounds eval_hold step_hold k tb0)"
    by (simp add: hold_hold_matches[OF ag(1)])
  from runTest_pass[OF p this] show ?thesis
    by (simp add: pass_result_frame after_rounds_frame fr
        after_rounds_wf[OF wf0 eval_ok_hold step_ok_hold])
       (simp add: printState_eq emit_def hold_rounds_pc ag(2))
qed

lemma hold_pc4_runTest:
  assumes wf: "tb_wf tb" and pc: "cpu_top_pc (rootp (rtl tb)) = 0" and c: "0 < cycles"
  shows "\<exists>tb'. runTest eval_hold step_pc4 name program cycles tb = Some tb' \<and>
      tb_wf tb' \<and> cpu_top_pc (rootp (rtl tb')) = 0 \<and>
      tests_passed tb' = tests_passed tb \<and> tests_failed tb' = tests_failed tb + 1"
proof -
  from prepared_frame[OF wf eval_ok_hold, of name program] obtain tb0 where
    p: "prepared eval_hold name program tb = Some tb0" and wf0: "tb_wf tb0"
    and fr: "tests_passed tb0 = tests_passed tb" "tests_failed tb0 = tests_failed tb"
    by blast
  note ag = hold_prepared[OF wf pc p]
  have k: "0 < nat cycles" using c by simp
  have ok: "\<forall>j<0. round_matches eval_hold step_pc4 (after_rounds eval_hold step_pc4 j tb0)"
    by simp
  have bad: "\<not> round_matches eval_hold step_pc4 (after_rounds eval_hold step_pc4 0 tb0)"
    using hold_pc4_mismatch[OF ag(1)] by simp
  from runTest_fail[OF p k ok bad] show ?thesis
    by (simp add: fail_result_frame after_rounds_frame fr
        after_rounds_wf[OF wf0 eval_ok_hold step_ok_pc4])
       (simp add: printState_eq emit_def hold_rounds_pc ag(2))
qed

lemma main_start:
  "tb_wf (main_banner (openTrace tb_init))"
  "cpu_top_pc (rootp (rtl (main_banner (openTrace tb_init)))) = 0"
  "tests_passed (main_banner (openTrace tb_init)) = 0"
  "tests_failed (main_banner (openTrace tb_init)) = 0"
  using tb_wf_init
  by (simp_all add: main_banner_def openTrace_def emit_def tb_wf_def)
     (simp_all add: tb_init_def rtl_zero_def)

lemma main_all_pass:
  "\<exists>tb. main eval_hold step_hold rtl_zero 0 cpu_zero = Some (0, tb) \<and>
        tests_passed tb = 5 \<and> tests_failed tb = 0"
proof -
  note s = main_start
  from hold_hold_runTest[OF s(1,2), of "''Simple Add''" test_add 4] obtain tb1 where
    r1: "runTest eval_hold step_hold ''Simple Add'' test_add 4 (main_banner (openTrace tb_init))
           = Some tb1"
    and w1: "tb_wf tb1" "cpu_top_pc (rootp (rtl tb1)) = 0"
    and c1: "tests_passed tb1 = 1" "tests_failed tb1 = 0"
    using s(3,4) by auto
  from hold_hold_runTest[OF w1, of "''Subtraction''" test_sub 4] obtain tb2 where
    r2: "runTest eval_hold step_hold ''Subtraction'' test_sub 4 tb1 = Some tb2"
    and w2: "tb_wf tb2" "cpu_top_pc (rootp (rtl tb2)) = 0"
    and c2: "tests_passed tb2 = 2" "tests_failed tb2 = 0"
    using c1 by auto
  from hold_hold_runTest[OF w2, of "''Logical Ops''" test_logic 6] obtain tb3 where
    r3: "runTest eval_hold step_hold ''Logical Ops'' test_logic 6 tb2 = Some tb3"
    and w3: "tb_wf tb3" "cpu_top_pc (rootp (rtl tb3)) = 0"
    and c3: "tests_passed tb3 = 3" "tests_failed tb3 = 0"
    using c2 by auto
  from hold_hold_runTest[OF w3, of "''Immediate Ops''" test_imm 4] obtain tb4 where
    r4: "runTest eval_hold step_hold ''Immediate Ops'' test_imm 4 tb3 = Some tb4"
    and w4: "tb_wf tb4" "cpu_top_pc (rootp (rtl tb4)) = 0"
    and c4: "tests_passed tb4 = 4" "tests_failed tb4 = 0"
    using c3 by auto
  from hold_hold_runTest[OF w4, of "''Shifts''" test_shift 4] obtain tb5 where
    r5: "runTest eval_hold step_hold ''Shifts'' test_shift 4 tb4 = Some tb5"
    and c5: "tests_passed tb5 = 5" "tests_failed tb5 = 0"
    using c4 by auto
  show ?thesis
    by (simp add: main_def Testbench_new_init r1 r2 r3 r4 r5 Let_def)
       (simp add: main_summary_def emit_def c5)
qed

lemma main_all_fail:
  "\<exists>tb. main eval_hold step_pc4 rtl_zero 0 cpu_zero = Some (1, tb) \<and>
        tests_passed tb = 0 \<and> tests_failed tb = 5"
proof -
  note s = main_start
  from hold_pc4_runTest[OF s(1,2), of 4 "''Simple Add''" test_add] obtain tb1 where
    r1: "runTest eval_hold step_pc4 ''Simple Add'' test_add 4 (main_banner (openTrace tb_init))
           = Some tb1"
    and w1: "tb_wf tb1" "cpu_top_pc (rootp (rtl tb1)) = 0"
    and c1: "tests_passed tb1 = 0" "tests_failed tb1 = 1"
    using s(3,4) by auto
  from hold_pc4_runTest[OF w1, of 4 "''Subtraction''" test_sub] obtain tb2 where
    r2: "runTest eval_hold step_pc4 ''Subtraction'' test_sub 4 tb1 = Some tb2"
    and w2: "tb_wf tb2" "cpu_top_pc (rootp (rtl tb2)) = 0"
    and c2: "tests_passed tb2 = 0" "tests_failed tb2 = 2"
    using c1 by auto
  from hold_pc4_runTest[OF w2, of 6 "''Logical Ops''" test_logic] obtain tb3 where
    r3: "runTest eval_hold step_pc4 ''Logical Ops'' test_logic 6 tb2 = Some tb3"
    and w3: "tb_wf tb3" "cpu_top_pc (rootp (rtl tb3)) = 0"
    and c3: "tests_passed tb3 = 0" "tests_failed tb3 = 3"
    using c2 by auto
  from hold_pc4_runTest[OF w3, of 4 "''Immediate Ops''" test_imm] obtain tb4 where
    r4: "runTest eval_hold step_pc4 ''Immediate Ops'' test_imm 4 tb3 = Some tb4"
    and w4: "tb_wf tb4" "cpu_top_pc (rootp (rtl tb4)) = 0"
    and c4: "tests_passed tb4 = 0" "tests_failed tb4 = 4"
    using c3 by auto
  from hold_pc4_runTest[OF w4, of 4 "''Shifts''" test_shift] obtain tb5 where
    r5: "runTest eval_hold step_pc4 ''Shifts'' test_shift 4 tb4 = Some tb5"
    and c5: "tests_passed tb5 = 0" "tests_failed tb5 = 5"
    using c4 by auto
  show ?thesis
    by (simp add: main_def Testbench_new_init r1 r2 r3 r4 r5 Let_def)
       (simp add: main_summary_def emit_def c5)
qed

section \<open>Lemmas: the log of a test's verdict and the dumps\<close>

lemma print_events_cong:
  "rtl a = rtl b \<Longrightarrow> ref a = ref b \<Longrightarrow> print_events a = print_events b"
  by (simp add: print_events_def print_reg_events_def[abs_def] getRtlPc_def getRtlReg_def
      cong: if_cong)

lemma print_events_frame [simp]:
  "print_events (tb\<lparr>events := evs\<rparr>) = print_events tb"
  "print_events (tb\<lparr>tests_passed := n\<rparr>) = print_events tb"
  "print_events (tb\<lparr>tests_failed := n\<rparr>) = print_events tb"
  by (rule print_events_cong; simp)+

lemma pass_result_events:
  "events (printState ((emit (OutPass name) tb1)\<lparr>tests_passed := n\<rparr>)) =
     events tb1 @ [OutPass name] @ print_events tb1"
  by (simp add: printState_eq emit_def)

lemma fail_result_events:
  "events (printState ((emit (OutFail name)
             (printState (emit (ErrMismatchAtCycle k) tb1)))\<lparr>tests_failed := n\<rparr>)) =
     events tb1 @ [ErrMismatchAtCycle k] @ print_events tb1 @
     [OutFail name] @ print_events tb1"
  by (simp add: printState_eq emit_def)

lemma compare_events_regs_zero:
  assumes "regs_zero tb"
  shows "compare_events tb =
     RefGetPc #
     (if getRtlPc tb \<noteq> riscv_get_pc (ref tb)
      then [ErrPcMismatch (getRtlPc tb) (riscv_get_pc (ref tb))] else []) @
     map RefGetReg [1..<32]"
proof -
  have "concat (map (compare_reg_events tb) is) = map RefGetReg is"
    if "\<forall>i\<in>set is. getRtlReg tb i = 0 \<and> riscv_get_reg (ref tb) i = 0" for "is"
    using that by (induction "is") (simp_all add: compare_reg_events_def)
  with assms show ?thesis
    by (simp add: regs_zero_def compare_events_def list_all_iff del: upt_rec_numeral)
qed

lemma print_events_regs_zero:
  assumes "regs_zero tb"
  shows "print_events tb =
     [OutStateHeader, RefGetPc, OutStatePc (getRtlPc tb) (riscv_get_pc (ref tb)),
      OutStateRegsHeader] @ map RefGetReg [1..<32]"
proof -
  have "concat (map (print_reg_events tb) is) = map RefGetReg is"
    if "\<forall>i\<in>set is. getRtlReg tb i = 0 \<and> riscv_get_reg (ref tb) i = 0" for "is"
    using that by (induction "is") (simp_all add: print_reg_events_def)
  with assms show ?thesis
    by (simp add: regs_zero_def print_events_def list_all_iff del: upt_rec_numeral)
qed

lemma hold_step_view:
  "getRtlPc (stepAndCompare eval_hold step tb) = getRtlPc tb"
  "getRtlReg (stepAndCompare eval_hold step tb) i = getRtlReg tb i"
  "ref (stepAndCompare eval step_hold tb) = ref tb"
  "riscv_get_pc (ref (stepAndCompare eval step_pc4 tb)) = riscv_get_pc (ref tb) + 4"
  "riscv_get_reg (ref (stepAndCompare eval step_pc4 tb)) i = riscv_get_reg (ref tb) i"
  by (simp_all add: stepAndCompare_eq tick_eq getRtlPc_def getRtlReg_def cycle_root_def
      eval_hold_def step_hold_def step_pc4_def riscv_get_pc_def riscv_get_reg_def)

lemma round_view:
  "getRtlPc (comparison_round eval step tb) = getRtlPc (stepAndCompare eval step tb)"
  "getRtlReg (comparison_round eval step tb) i = getRtlReg (stepAndCompare eval step tb) i"
  "ref (comparison_round eval step tb) = ref (stepAndCompare eval step tb)"
  by (simp_all add: comparison_round_eq)

lemma hold_hold_rounds_view:
  "getRtlPc (after_rounds eval_hold step_hold k tb) = getRtlPc tb"
  "getRtlReg (after_rounds eval_hold step_hold k tb) i = getRtlReg tb i"
  "ref (after_rounds eval_hold step_hold k tb) = ref tb"
  by (induction k) (simp_all add: after_rounds_Suc round_view hold_step_view)

lemma hold_prepared_init:
  assumes p: "prepared eval_hold name program tb_init = Some tb0"
  shows "regs_zero tb0" "getRtlPc tb0 = 0" "riscv_get_pc (ref tb0) = 0"
    "rst (rtl tb0) = False" "trace tb0 = False"
    "events tb0 = [RefInit, OutRunning name,
       RtlEval True True, RtlEval False True, RtlEval True True, RtlEval False True,
       RtlEval True True, RtlEval False True, RtlEval True True, RtlEval False True,
       RtlEval True True, RtlEval False True, RefInit]"
proof -
  from prepared_eq[OF tb_wf_init eval_ok_hold, of name program] p
  obtain m im where
    tb0: "tb0 = tb_init\<lparr>rtl := \<lparr>clk = False, rst = False,
                      rootp = ((cycle_root eval_hold True ^^ 5)
                                 ((rootp (rtl tb_init))\<lparr>imem_mem := im\<rparr>))
                                \<lparr>regfile_registers := replicate 32 0,
                                 dmem_mem := replicate 1024 0\<rparr>\<rparr>,
              ref := riscv_init (ref tb_init) (ref_mem_ptr tb_init) 4096,
              ref_mem := m,
              sim_time := (if trace tb_init then sim_time tb_init + 10 else sim_time tb_init),
              cycles_run := cycles_run tb_init + 5,
              events := events tb_init @ [OutRunning name] @
                concat (map (\<lambda>i. tick_events True (trace tb_init)
                                     (sim_time tb_init + 2 * of_nat i))
                            [0..<5]) @ [RefInit]\<rparr>"
    by auto
  have five: "[0..<5] = [0, 1, 2, 3, 4::nat]"
    by (simp add: upt_rec)
  show "regs_zero tb0"
    unfolding tb0
    by (simp add: regs_zero_def getRtlReg_def riscv_get_reg_def riscv_init_def list_all_iff
        del: upt_rec_numeral)
  show "getRtlPc tb0 = 0" "riscv_get_pc (ref tb0) = 0" "rst (rtl tb0) = False"
    "trace tb0 = False"
    unfolding tb0
    by (simp_all add: getRtlPc_def riscv_get_pc_def riscv_init_def cycle_root_hold
        tb_init_def rtl_zero_def)
  show "events tb0 = [RefInit, OutRunning name,
       RtlEval True True, RtlEval False True, RtlEval True True, RtlEval False True,
       RtlEval True True, RtlEval False True, RtlEval True True, RtlEval False True,
       RtlEval True True, RtlEval False True, RefInit]"
    unfolding tb0 five
    by (simp add: tb_init_def tick_events_def)
qed

section \<open>The claims\<close>

subsection \<open>C1\<close>

text \<open>Claim C1, as the code behaves on the third and fourth test of main, loaded
  into a freshly constructed testbench. After the shorter program is loaded, word 4
  of the hardware instruction memory is the NOP, but bytes 16 to 19 of the
  reference memory still hold word 4 of the previous program (\<open>xor x5, x1, x2\<close>):
  loadProgram pads the hardware instruction memory only.\<close>

theorem loadProgram_leaves_stale_reference_bytes:
  "\<exists>tb1 tb2.
     Testbench_new rtl_zero 0 cpu_zero = Some tb_init \<and>
     loadProgram test_logic tb_init = Some tb1 \<and>
     loadProgram test_imm tb1 = Some tb2 \<and>
     length test_imm = 4 \<and>
     imem_mem (rootp (rtl tb2)) ! 4 = 0x00000013 \<and>
     [ref_mem tb2 ! 16, ref_mem tb2 ! 17, ref_mem tb2 ! 18, ref_mem tb2 ! 19] =
       [0xB3, 0xC2, 0x20, 0x00] \<and>
     word_bytes (test_logic ! 4) = [0xB3, 0xC2, 0x20, 0x00] \<and>
     word_bytes 0x00000013 = [0x13, 0x00, 0x00, 0x00]"
proof -
  from loadProgram_spec[OF tb_wf_init, of test_logic] obtain m1 im1 where
    r1: "loadProgram test_logic tb_init =
            Some (tb_init\<lparr>ref_mem := m1,
               rtl := (rtl tb_init)\<lparr>rootp := (rootp (rtl tb_init))\<lparr>imem_mem := im1\<rparr>\<rparr>\<rparr>)"
      and l1: "length m1 = 4096" "length im1 = 1024"
      and b1: "\<forall>k<4096. m1 ! k =
             (if k div 4 < length test_logic
              then ucast (drop_bit (8 * (k mod 4)) (test_logic ! (k div 4)) AND 0xFF)
              else ref_mem tb_init ! k)"
    by blast
  define tb1 where "tb1 = tb_init\<lparr>ref_mem := m1,
               rtl := (rtl tb_init)\<lparr>rootp := (rootp (rtl tb_init))\<lparr>imem_mem := im1\<rparr>\<rparr>\<rparr>"
  have wf1: "tb_wf tb1"
    using tb_wf_init l1 by (simp add: tb1_def tb_wf_def root_wf_def)
  from loadProgram_spec[OF wf1, of test_imm] obtain m2 im2 where
    r2: "loadProgram test_imm tb1 =
            Some (tb1\<lparr>ref_mem := m2,
               rtl := (rtl tb1)\<lparr>rootp := (rootp (rtl tb1))\<lparr>imem_mem := im2\<rparr>\<rparr>\<rparr>)"
      and b2: "\<forall>k<4096. m2 ! k =
             (if k div 4 < length test_imm
              then ucast (drop_bit (8 * (k mod 4)) (test_imm ! (k div 4)) AND 0xFF)
              else ref_mem tb1 ! k)"
      and i2: "\<forall>j<1024. im2 ! j = (if j < length test_imm then test_imm ! j else 0x13)"
    by blast
  define tb2 where "tb2 = tb1\<lparr>ref_mem := m2,
               rtl := (rtl tb1)\<lparr>rootp := (rootp (rtl tb1))\<lparr>imem_mem := im2\<rparr>\<rparr>\<rparr>"
  have st: "m2 ! k = m1 ! k" if "16 \<le> k" "k < 20" for k
  proof -
    have "k < 4096" "k div 4 = 4" using that by simp_all
    then show ?thesis using b2 by (simp add: test_imm_def tb1_def)
  qed
  have old: "m1 ! (16 + j) = ucast (drop_bit (8 * j) (0x0020C2B3 :: u32) AND 0xFF)"
    if "j < 4" for j
  proof -
    have "16 + j < 4096" using that by simp
    moreover have "(16 + j) div 4 = 4" "(16 + j) mod 4 = j" using that by presburger+
    ultimately show ?thesis using b1 by (simp add: test_logic_def)
  qed
  have "m2 ! 16 = 0xB3" "m2 ! 17 = 0xC2" "m2 ! 18 = 0x20" "m2 ! 19 = 0x00"
    using st[of 16] st[of 17] st[of 18] st[of 19] old[of 0] old[of 1] old[of 2] old[of 3]
    by simp_all
  moreover have "im2 ! 4 = 0x13" using i2 by (simp add: test_imm_def)
  moreover have "word_bytes (test_logic ! 4) = [0xB3, 0xC2, 0x20, 0x00]"
    "word_bytes 0x00000013 = [0x13, 0x00, 0x00, 0x00]" "length test_imm = 4"
    by (simp_all add: word_bytes_def test_logic_def test_imm_def)
  ultimately have "Testbench_new rtl_zero 0 cpu_zero = Some tb_init \<and>
     loadProgram test_logic tb_init = Some tb1 \<and>
     loadProgram test_imm tb1 = Some tb2 \<and>
     length test_imm = 4 \<and>
     imem_mem (rootp (rtl tb2)) ! 4 = 0x00000013 \<and>
     [ref_mem tb2 ! 16, ref_mem tb2 ! 17, ref_mem tb2 ! 18, ref_mem tb2 ! 19] =
       [0xB3, 0xC2, 0x20, 0x00] \<and>
     word_bytes (test_logic ! 4) = [0xB3, 0xC2, 0x20, 0x00] \<and>
     word_bytes 0x00000013 = [0x13, 0x00, 0x00, 0x00]"
    using r1 r2 by (simp add: tb1_def[symmetric] tb2_def Testbench_new_init)
  then show ?thesis by blast
qed

subsection \<open>C2\<close>

text \<open>Claim C2. compareState returns true exactly when the hardware PC equals the
  reference PC and hardware register i equals reference register i for every i from
  1 to 31. Register 0 is skipped: the hardware entry 0 has no influence and
  riscv_get_reg is never called with index 0. Memory has no influence: replacing the
  reference memory, the hardware data memory and the hardware instruction memory by
  anything leaves the verdict unchanged.\<close>

theorem compareState_verdict:
  "(fst (compareState tb) \<longleftrightarrow>
      cpu_top_pc (rootp (rtl tb)) = riscv_get_pc (ref tb) \<and>
      (\<forall>i. 1 \<le> i \<and> i \<le> 31 \<longrightarrow>
         regfile_registers (rootp (rtl tb)) ! i = riscv_get_reg (ref tb) i)) \<and>
   fst (compareState (tb\<lparr>ref_mem := m, rtl := (rtl tb)\<lparr>rootp :=
          (rootp (rtl tb))\<lparr>dmem_mem := dm, imem_mem := im\<rparr>\<rparr>\<rparr>)) = fst (compareState tb) \<and>
   fst (compareState (tb\<lparr>rtl := (rtl tb)\<lparr>rootp := (rootp (rtl tb))
          \<lparr>regfile_registers := (regfile_registers (rootp (rtl tb)))[0 := v]\<rparr>\<rparr>\<rparr>)) =
     fst (compareState tb) \<and>
   RefGetReg 0 \<notin> set (drop (length (events tb)) (events (snd (compareState tb))))"
proof -
  have iff: "fst (compareState tb) \<longleftrightarrow>
      cpu_top_pc (rootp (rtl tb)) = riscv_get_pc (ref tb) \<and>
      (\<forall>i. 1 \<le> i \<and> i \<le> 31 \<longrightarrow>
         regfile_registers (rootp (rtl tb)) ! i = riscv_get_reg (ref tb) i)" for tb
  proof -
    have "(\<forall>i\<in>set [1..<32]. getRtlReg tb i = riscv_get_reg (ref tb) i) \<longleftrightarrow>
          (\<forall>i. 1 \<le> i \<and> i \<le> 31 \<longrightarrow>
             regfile_registers (rootp (rtl tb)) ! i = riscv_get_reg (ref tb) i)"
      by (auto simp: getRtlReg_def simp del: upt_rec_numeral)
    then show ?thesis
      by (simp add: compareState_eq getRtlPc_def del: upt_rec_numeral set_upt)
  qed
  have mem: "fst (compareState (tb\<lparr>ref_mem := m, rtl := (rtl tb)\<lparr>rootp :=
          (rootp (rtl tb))\<lparr>dmem_mem := dm, imem_mem := im\<rparr>\<rparr>\<rparr>)) = fst (compareState tb)"
    unfolding iff by simp
  have r0: "fst (compareState (tb\<lparr>rtl := (rtl tb)\<lparr>rootp := (rootp (rtl tb))
          \<lparr>regfile_registers := (regfile_registers (rootp (rtl tb)))[0 := v]\<rparr>\<rparr>\<rparr>)) =
     fst (compareState tb)"
    unfolding iff by auto
  have "RefGetReg 0 \<notin> set (compare_events tb)"
    by (auto simp: compare_events_def compare_reg_events_def simp del: upt_rec_numeral
        split: if_splits)
  then have "RefGetReg 0 \<notin> set (drop (length (events tb)) (events (snd (compareState tb))))"
    by (simp add: compareState_eq)
  with iff[of tb] mem r0 show ?thesis by blast
qed

theorem compareState_verdict_witness:
  "fst (compareState tb_init) \<and>
   \<not> fst (compareState (tb_init\<lparr>ref := cpu_zero\<lparr>pc := 4\<rparr>\<rparr>))"
proof -
  have "fst (compareState tb_init)"
    using compareState_verdict[of tb_init]
    by (simp add: tb_init_def rtl_zero_def cpu_zero_def riscv_get_pc_def riscv_get_reg_def)
  moreover have "\<not> fst (compareState (tb_init\<lparr>ref := cpu_zero\<lparr>pc := 4\<rparr>\<rparr>))"
    using compareState_verdict[of "tb_init\<lparr>ref := cpu_zero\<lparr>pc := 4\<rparr>\<rparr>"]
    by (simp add: tb_init_def rtl_zero_def cpu_zero_def riscv_get_pc_def)
  ultimately show ?thesis by blast
qed

subsection \<open>C3\<close>

text \<open>Claim C3. A test stops at its first mismatching round. On a well-formed
  testbench runTest returns normally. If every one of the \<open>cycles\<close> rounds matches,
  the log of those rounds is followed by the PASS line and a state dump, the passed
  counter goes up by one and the failed counter is unchanged. If round \<open>k\<close> (counted
  from 0) is the first that does not match, exactly \<open>k + 1\<close> rounds have run (as many
  calls of riscv_step), and their log is followed by "Mismatch at cycle k", a state
  dump, the FAIL line and the final state dump; the failed counter goes up by one
  and the passed counter is unchanged. A state dump is \<open>print_events\<close>: the header, the
  two program counters, and a line for every register from 1 to 31 that is not
  zero on both sides. The counters are C++ \<^verbatim>\<open>int\<close>s: the increment is that of 32-bit
  arithmetic, and it is the increment of the signed value below \<open>INT_MAX\<close>. In every
  case exactly one of the two counters changes.\<close>
theorem runTest_stops_at_first_mismatch:
  assumes wf: "tb_wf tb" and ok: "eval_ok eval"
  shows "\<exists>tb0 tb'.
     prepared eval name program tb = Some tb0 \<and>
     runTest eval step name program cycles tb = Some tb' \<and>
     ((\<forall>k<nat cycles. round_matches eval step (after_rounds eval step k tb0)) \<longrightarrow>
        tb' = printState ((emit (OutPass name) (after_rounds eval step (nat cycles) tb0))
                            \<lparr>tests_passed := tests_passed tb + 1\<rparr>) \<and>
        events tb' = events (after_rounds eval step (nat cycles) tb0) @
           [OutPass name] @ print_events (after_rounds eval step (nat cycles) tb0) \<and>
        tests_passed tb' = tests_passed tb + 1 \<and> tests_failed tb' = tests_failed tb \<and>
        (sint (tests_passed tb) < INT_MAX \<longrightarrow>
           sint (tests_passed tb') = sint (tests_passed tb) + 1) \<and>
        occurrences RefStep (events tb') = occurrences RefStep (events tb) + nat cycles) \<and>
     (\<forall>k<nat cycles.
        (\<forall>j<k. round_matches eval step (after_rounds eval step j tb0)) \<and>
        \<not> round_matches eval step (after_rounds eval step k tb0) \<longrightarrow>
        tb' = printState ((emit (OutFail name)
                (printState (emit (ErrMismatchAtCycle (int k))
                   (after_rounds eval step (Suc k) tb0))))
                            \<lparr>tests_failed := tests_failed tb + 1\<rparr>) \<and>
        events tb' = events (after_rounds eval step (Suc k) tb0) @
           [ErrMismatchAtCycle (int k)] @ print_events (after_rounds eval step (Suc k) tb0) @
           [OutFail name] @ print_events (after_rounds eval step (Suc k) tb0) \<and>
        tests_failed tb' = tests_failed tb + 1 \<and> tests_passed tb' = tests_passed tb \<and>
        (sint (tests_failed tb) < INT_MAX \<longrightarrow>
           sint (tests_failed tb') = sint (tests_failed tb) + 1) \<and>
        occurrences RefStep (events tb') = occurrences RefStep (events tb) + Suc k) \<and>
     ((tests_passed tb' = tests_passed tb + 1 \<and> tests_failed tb' = tests_failed tb) \<or>
      (tests_passed tb' = tests_passed tb \<and> tests_failed tb' = tests_failed tb + 1)) \<and>
     tests_passed tb + 1 \<noteq> tests_passed tb \<and> tests_failed tb + 1 \<noteq> tests_failed tb"
proof -
  from prepared_frame[OF wf ok, of name program] obtain tb0 where
    p: "prepared eval name program tb = Some tb0"
    and fr: "tests_passed tb0 = tests_passed tb" "tests_failed tb0 = tests_failed tb"
      "occurrences RefStep (events tb0) = occurrences RefStep (events tb)"
    by blast
  let ?ok = "\<lambda>k. round_matches eval step (after_rounds eval step k tb0)"
  let ?pass = "printState ((emit (OutPass name) (after_rounds eval step (nat cycles) tb0))
                            \<lparr>tests_passed := tests_passed tb + 1\<rparr>)"
  let ?fail = "\<lambda>k. printState ((emit (OutFail name)
                (printState (emit (ErrMismatchAtCycle (int k))
                   (after_rounds eval step (Suc k) tb0))))
                            \<lparr>tests_failed := tests_failed tb + 1\<rparr>)"
  have pass: "runTest eval step name program cycles tb = Some ?pass"
    if "\<forall>k<nat cycles. ?ok k"
    using runTest_pass[OF p that] by (simp add: fr)
  have fail: "runTest eval step name program cycles tb = Some (?fail k)"
    if "k < nat cycles" "\<forall>j<k. ?ok j" "\<not> ?ok k" for k
    using runTest_fail[OF p that] by (simp add: fr)
  have pass_fr: "tests_passed ?pass = tests_passed tb + 1 \<and> tests_failed ?pass = tests_failed tb \<and>
        occurrences RefStep (events ?pass) = occurrences RefStep (events tb) + nat cycles"
    by (simp add: pass_result_frame after_rounds_frame fr)
  have pass_ev: "events ?pass = events (after_rounds eval step (nat cycles) tb0) @
           [OutPass name] @ print_events (after_rounds eval step (nat cycles) tb0)"
    by (rule pass_result_events)
  have pass_s: "sint (tests_passed tb) < INT_MAX \<longrightarrow>
           sint (tests_passed ?pass) = sint (tests_passed tb) + 1"
    using pass_fr by (simp add: sint_succ32)
  have fail_fr: "tests_failed (?fail k) = tests_failed tb + 1 \<and>
        tests_passed (?fail k) = tests_passed tb \<and>
        occurrences RefStep (events (?fail k)) = occurrences RefStep (events tb) + Suc k" for k
    by (simp add: fail_result_frame after_rounds_frame fr)
  have fail_ev: "events (?fail k) = events (after_rounds eval step (Suc k) tb0) @
           [ErrMismatchAtCycle (int k)] @ print_events (after_rounds eval step (Suc k) tb0) @
           [OutFail name] @ print_events (after_rounds eval step (Suc k) tb0)" for k
    by (rule fail_result_events)
  have fail_s: "sint (tests_failed tb) < INT_MAX \<longrightarrow>
           sint (tests_failed (?fail k)) = sint (tests_failed tb) + 1" for k
    using fail_fr[of k] by (simp add: sint_succ32)
  from first_mismatch_cases[of "nat cycles" ?ok]
  obtain tb' where run: "runTest eval step name program cycles tb = Some tb'"
    and one: "(tests_passed tb' = tests_passed tb + 1 \<and> tests_failed tb' = tests_failed tb) \<or>
      (tests_passed tb' = tests_passed tb \<and> tests_failed tb' = tests_failed tb + 1)"
  proof (elim disjE exE conjE)
    assume a: "\<forall>k<nat cycles. ?ok k"
    assume r: "\<And>tb'. runTest eval step name program cycles tb = Some tb' \<Longrightarrow>
      (tests_passed tb' = tests_passed tb + 1 \<and> tests_failed tb' = tests_failed tb) \<or>
      (tests_passed tb' = tests_passed tb \<and> tests_failed tb' = tests_failed tb + 1) \<Longrightarrow> thesis"
    show thesis using r[OF pass[OF a]] pass_fr by blast
  next
    fix k assume a: "k < nat cycles" "\<forall>j<k. ?ok j" "\<not> ?ok k"
    assume r: "\<And>tb'. runTest eval step name program cycles tb = Some tb' \<Longrightarrow>
      (tests_passed tb' = tests_passed tb + 1 \<and> tests_failed tb' = tests_failed tb) \<or>
      (tests_passed tb' = tests_passed tb \<and> tests_failed tb' = tests_failed tb + 1) \<Longrightarrow> thesis"
    show thesis using r[OF fail[OF a]] fail_fr by blast
  qed
  have c1: "(\<forall>k<nat cycles. ?ok k) \<longrightarrow>
        tb' = ?pass \<and>
        events tb' = events (after_rounds eval step (nat cycles) tb0) @
           [OutPass name] @ print_events (after_rounds eval step (nat cycles) tb0) \<and>
        tests_passed tb' = tests_passed tb + 1 \<and> tests_failed tb' = tests_failed tb \<and>
        (sint (tests_passed tb) < INT_MAX \<longrightarrow>
           sint (tests_passed tb') = sint (tests_passed tb) + 1) \<and>
        occurrences RefStep (events tb') = occurrences RefStep (events tb) + nat cycles"
  proof
    assume "\<forall>k<nat cycles. ?ok k"
    from pass[OF this] run have "tb' = ?pass" by simp
    with pass_fr pass_ev pass_s show "tb' = ?pass \<and>
        events tb' = events (after_rounds eval step (nat cycles) tb0) @
           [OutPass name] @ print_events (after_rounds eval step (nat cycles) tb0) \<and>
        tests_passed tb' = tests_passed tb + 1 \<and> tests_failed tb' = tests_failed tb \<and>
        (sint (tests_passed tb) < INT_MAX \<longrightarrow>
           sint (tests_passed tb') = sint (tests_passed tb) + 1) \<and>
        occurrences RefStep (events tb') = occurrences RefStep (events tb) + nat cycles"
      by blast
  qed
  have c2: "\<forall>k<nat cycles. (\<forall>j<k. ?ok j) \<and> \<not> ?ok k \<longrightarrow>
        tb' = ?fail k \<and>
        events tb' = events (after_rounds eval step (Suc k) tb0) @
           [ErrMismatchAtCycle (int k)] @ print_events (after_rounds eval step (Suc k) tb0) @
           [OutFail name] @ print_events (after_rounds eval step (Suc k) tb0) \<and>
        tests_failed tb' = tests_failed tb + 1 \<and> tests_passed tb' = tests_passed tb \<and>
        (sint (tests_failed tb) < INT_MAX \<longrightarrow>
           sint (tests_failed tb') = sint (tests_failed tb) + 1) \<and>
        occurrences RefStep (events tb') = occurrences RefStep (events tb) + Suc k"
  proof (intro allI impI, elim conjE)
    fix k assume "k < nat cycles" "\<forall>j<k. ?ok j" "\<not> ?ok k"
    from fail[OF this] run have "tb' = ?fail k" by simp
    with fail_fr[of k] fail_ev[of k] fail_s[of k] show "tb' = ?fail k \<and>
        events tb' = events (after_rounds eval step (Suc k) tb0) @
           [ErrMismatchAtCycle (int k)] @ print_events (after_rounds eval step (Suc k) tb0) @
           [OutFail name] @ print_events (after_rounds eval step (Suc k) tb0) \<and>
        tests_failed tb' = tests_failed tb + 1 \<and> tests_passed tb' = tests_passed tb \<and>
        (sint (tests_failed tb) < INT_MAX \<longrightarrow>
           sint (tests_failed tb') = sint (tests_failed tb) + 1) \<and>
        occurrences RefStep (events tb') = occurrences RefStep (events tb) + Suc k"
      by blast
  qed
  have ne: "tests_passed tb + 1 \<noteq> tests_passed tb" "tests_failed tb + 1 \<noteq> tests_failed tb"
    by simp_all
  show ?thesis
    using p run c1 c2 one ne by blast
qed

theorem runTest_stops_at_first_mismatch_witness:
  "tb_wf tb_init \<and> eval_ok eval_hold \<and>
   (\<exists>tb0 tb'.
      prepared eval_hold ''Simple Add'' test_add tb_init = Some tb0 \<and>
      list_all (\<lambda>k. round_matches eval_hold step_hold (after_rounds eval_hold step_hold k tb0))
        [0..<4] \<and>
      runTest eval_hold step_hold ''Simple Add'' test_add 4 tb_init = Some tb' \<and>
      events tb' = events (after_rounds eval_hold step_hold 4 tb0) @
        [OutPass ''Simple Add'', OutStateHeader, RefGetPc, OutStatePc 0 0,
         OutStateRegsHeader] @ map RefGetReg [1..<32] \<and>
      tests_passed tb' = 1 \<and> tests_failed tb' = 0 \<and> sint (tests_passed tb') = 1 \<and>
      occurrences RefStep (events tb') = 4) \<and>
   (\<exists>tb0 tb'.
      prepared eval_hold ''Simple Add'' test_add tb_init = Some tb0 \<and>
      \<not> round_matches eval_hold step_pc4 (after_rounds eval_hold step_pc4 0 tb0) \<and>
      runTest eval_hold step_pc4 ''Simple Add'' test_add 4 tb_init = Some tb' \<and>
      events tb' = events tb0 @
        [RtlEval True False, RtlEval False False, RefStep, RefGetPc, ErrPcMismatch 0 4] @
        map RefGetReg [1..<32] @
        [ErrMismatchAtCycle 0, OutStateHeader, RefGetPc, OutStatePc 0 4,
         OutStateRegsHeader] @ map RefGetReg [1..<32] @
        [OutFail ''Simple Add'', OutStateHeader, RefGetPc, OutStatePc 0 4,
         OutStateRegsHeader] @ map RefGetReg [1..<32] \<and>
      tests_passed tb' = 0 \<and> tests_failed tb' = 1 \<and> sint (tests_failed tb') = 1 \<and>
      occurrences RefStep (events tb') = 1)"
proof -
  have init: "tests_passed tb_init = 0" "tests_failed tb_init = 0"
    "occurrences RefStep (events tb_init) = 0"
    by (simp_all add: tb_init_def)
  have A: "\<exists>tb0 tb'.
      prepared eval_hold ''Simple Add'' test_add tb_init = Some tb0 \<and>
      list_all (\<lambda>k. round_matches eval_hold step_hold (after_rounds eval_hold step_hold k tb0))
        [0..<4] \<and>
      runTest eval_hold step_hold ''Simple Add'' test_add 4 tb_init = Some tb' \<and>
      events tb' = events (after_rounds eval_hold step_hold 4 tb0) @
        [OutPass ''Simple Add'', OutStateHeader, RefGetPc, OutStatePc 0 0,
         OutStateRegsHeader] @ map RefGetReg [1..<32] \<and>
      tests_passed tb' = 1 \<and> tests_failed tb' = 0 \<and> sint (tests_passed tb') = 1 \<and>
      occurrences RefStep (events tb') = 4"
  proof -
    from runTest_stops_at_first_mismatch[OF tb_wf_init eval_ok_hold,
        of "''Simple Add''" test_add step_hold 4]
    obtain tb0 tb' where
      p: "prepared eval_hold ''Simple Add'' test_add tb_init = Some tb0"
      and r: "runTest eval_hold step_hold ''Simple Add'' test_add 4 tb_init = Some tb'"
      and pass: "(\<forall>k<nat 4. round_matches eval_hold step_hold
                     (after_rounds eval_hold step_hold k tb0)) \<longrightarrow>
        tb' = printState ((emit (OutPass ''Simple Add'')
                 (after_rounds eval_hold step_hold (nat 4) tb0))
                            \<lparr>tests_passed := tests_passed tb_init + 1\<rparr>) \<and>
        events tb' = events (after_rounds eval_hold step_hold (nat 4) tb0) @
           [OutPass ''Simple Add''] @
           print_events (after_rounds eval_hold step_hold (nat 4) tb0) \<and>
        tests_passed tb' = tests_passed tb_init + 1 \<and> tests_failed tb' = tests_failed tb_init \<and>
        (sint (tests_passed tb_init) < INT_MAX \<longrightarrow>
           sint (tests_passed tb') = sint (tests_passed tb_init) + 1) \<and>
        occurrences RefStep (events tb') = occurrences RefStep (events tb_init) + nat 4"
      by blast
    note v = hold_prepared_init[OF p]
    have ok: "round_matches eval_hold step_hold (after_rounds eval_hold step_hold k tb0)" for k
      by (rule hold_hold_matches[OF hold_prepared_agree[OF p]])
    then have l: "list_all (\<lambda>k. round_matches eval_hold step_hold
                   (after_rounds eval_hold step_hold k tb0)) [0..<4]"
      by (simp add: list_all_iff)
    have rz: "regs_zero (after_rounds eval_hold step_hold 4 tb0)"
      using v(1) by (simp add: regs_zero_def hold_hold_rounds_view)
    have dump: "print_events (after_rounds eval_hold step_hold 4 tb0) =
        [OutStateHeader, RefGetPc, OutStatePc 0 0, OutStateRegsHeader] @ map RefGetReg [1..<32]"
      unfolding print_events_regs_zero[OF rz] by (simp add: hold_hold_rounds_view v(2,3))
    from pass ok have
      e: "events tb' = events (after_rounds eval_hold step_hold (nat 4) tb0) @
           [OutPass ''Simple Add''] @
           print_events (after_rounds eval_hold step_hold (nat 4) tb0)"
      and c: "tests_passed tb' = tests_passed tb_init + 1" "tests_failed tb' = tests_failed tb_init"
        "sint (tests_passed tb_init) < INT_MAX \<longrightarrow>
           sint (tests_passed tb') = sint (tests_passed tb_init) + 1"
        "occurrences RefStep (events tb') = occurrences RefStep (events tb_init) + nat 4"
      by blast+
    have g1: "events tb' = events (after_rounds eval_hold step_hold 4 tb0) @
        [OutPass ''Simple Add'', OutStateHeader, RefGetPc, OutStatePc 0 0,
         OutStateRegsHeader] @ map RefGetReg [1..<32]"
      using e by (simp add: dump)
    have g2: "tests_passed tb' = 1" "tests_failed tb' = 0" "sint (tests_passed tb') = 1"
      "occurrences RefStep (events tb') = 4"
      using c init by simp_all
    from p l r g1 g2 show ?thesis by blast
  qed
  have B: "\<exists>tb0 tb'.
      prepared eval_hold ''Simple Add'' test_add tb_init = Some tb0 \<and>
      \<not> round_matches eval_hold step_pc4 (after_rounds eval_hold step_pc4 0 tb0) \<and>
      runTest eval_hold step_pc4 ''Simple Add'' test_add 4 tb_init = Some tb' \<and>
      events tb' = events tb0 @
        [RtlEval True False, RtlEval False False, RefStep, RefGetPc, ErrPcMismatch 0 4] @
        map RefGetReg [1..<32] @
        [ErrMismatchAtCycle 0, OutStateHeader, RefGetPc, OutStatePc 0 4,
         OutStateRegsHeader] @ map RefGetReg [1..<32] @
        [OutFail ''Simple Add'', OutStateHeader, RefGetPc, OutStatePc 0 4,
         OutStateRegsHeader] @ map RefGetReg [1..<32] \<and>
      tests_passed tb' = 0 \<and> tests_failed tb' = 1 \<and> sint (tests_failed tb') = 1 \<and>
      occurrences RefStep (events tb') = 1"
  proof -
    from runTest_stops_at_first_mismatch[OF tb_wf_init eval_ok_hold,
        of "''Simple Add''" test_add step_pc4 4]
    obtain tb0 tb' where
      p: "prepared eval_hold ''Simple Add'' test_add tb_init = Some tb0"
      and r: "runTest eval_hold step_pc4 ''Simple Add'' test_add 4 tb_init = Some tb'"
      and fail: "\<forall>k<nat 4.
        (\<forall>j<k. round_matches eval_hold step_pc4 (after_rounds eval_hold step_pc4 j tb0)) \<and>
        \<not> round_matches eval_hold step_pc4 (after_rounds eval_hold step_pc4 k tb0) \<longrightarrow>
        tb' = printState ((emit (OutFail ''Simple Add'')
                (printState (emit (ErrMismatchAtCycle (int k))
                   (after_rounds eval_hold step_pc4 (Suc k) tb0))))
                            \<lparr>tests_failed := tests_failed tb_init + 1\<rparr>) \<and>
        events tb' = events (after_rounds eval_hold step_pc4 (Suc k) tb0) @
           [ErrMismatchAtCycle (int k)] @
           print_events (after_rounds eval_hold step_pc4 (Suc k) tb0) @
           [OutFail ''Simple Add''] @
           print_events (after_rounds eval_hold step_pc4 (Suc k) tb0) \<and>
        tests_failed tb' = tests_failed tb_init + 1 \<and> tests_passed tb' = tests_passed tb_init \<and>
        (sint (tests_failed tb_init) < INT_MAX \<longrightarrow>
           sint (tests_failed tb') = sint (tests_failed tb_init) + 1) \<and>
        occurrences RefStep (events tb') = occurrences RefStep (events tb_init) + Suc k"
      by blast
    note v = hold_prepared_init[OF p]
    have bad: "\<not> round_matches eval_hold step_pc4 (after_rounds eval_hold step_pc4 0 tb0)"
      using hold_pc4_mismatch[OF hold_prepared_agree[OF p]] by simp
    have "(0::nat) < nat 4" by simp
    moreover have "(\<forall>j<0. round_matches eval_hold step_pc4 (after_rounds eval_hold step_pc4 j tb0)) \<and>
        \<not> round_matches eval_hold step_pc4 (after_rounds eval_hold step_pc4 0 tb0)"
      using bad by simp
    ultimately have
      e: "events tb' = events (after_rounds eval_hold step_pc4 (Suc 0) tb0) @
           [ErrMismatchAtCycle (int 0)] @
           print_events (after_rounds eval_hold step_pc4 (Suc 0) tb0) @
           [OutFail ''Simple Add''] @
           print_events (after_rounds eval_hold step_pc4 (Suc 0) tb0)"
      and e2: "tests_failed tb' = tests_failed tb_init + 1"
      and e3: "tests_passed tb' = tests_passed tb_init"
      and e4: "occurrences RefStep (events tb') = occurrences RefStep (events tb_init) + Suc 0"
      and e5: "sint (tests_failed tb_init) < INT_MAX \<longrightarrow>
           sint (tests_failed tb') = sint (tests_failed tb_init) + 1"
      using fail by blast+
    let ?S = "stepAndCompare eval_hold step_pc4 tb0"
    let ?A = "after_rounds eval_hold step_pc4 (Suc 0) tb0"
    have A: "?A = comparison_round eval_hold step_pc4 tb0"
      by (simp add: after_rounds_Suc)
    have rzS: "regs_zero ?S"
      using v(1) by (simp add: regs_zero_def hold_step_view)
    have rzA: "regs_zero ?A"
      using rzS by (simp add: A regs_zero_def round_view)
    have cmp: "compare_events ?S = [RefGetPc, ErrPcMismatch 0 4] @ map RefGetReg [1..<32]"
      unfolding compare_events_regs_zero[OF rzS] by (simp add: hold_step_view v(2,3))
    have dump: "print_events ?A =
        [OutStateHeader, RefGetPc, OutStatePc 0 4, OutStateRegsHeader] @ map RefGetReg [1..<32]"
      unfolding print_events_regs_zero[OF rzA]
      by (simp add: A round_view hold_step_view v(2,3))
    have evA: "events ?A = events tb0 @
        [RtlEval True False, RtlEval False False, RefStep, RefGetPc, ErrPcMismatch 0 4] @
        map RefGetReg [1..<32]"
      unfolding A round_events cmp by (simp add: tick_events_def v(4,5))
    have g1: "events tb' = events tb0 @
        [RtlEval True False, RtlEval False False, RefStep, RefGetPc, ErrPcMismatch 0 4] @
        map RefGetReg [1..<32] @
        [ErrMismatchAtCycle 0, OutStateHeader, RefGetPc, OutStatePc 0 4,
         OutStateRegsHeader] @ map RefGetReg [1..<32] @
        [OutFail ''Simple Add'', OutStateHeader, RefGetPc, OutStatePc 0 4,
         OutStateRegsHeader] @ map RefGetReg [1..<32]"
      unfolding e evA dump by simp
    have g2: "tests_passed tb' = 0" "tests_failed tb' = 1" "sint (tests_failed tb') = 1"
      "occurrences RefStep (events tb') = 1"
      using e2 e3 e4 e5 init by simp_all
    from p r bad g1 g2 show ?thesis by blast
  qed
  from A B tb_wf_init eval_ok_hold show ?thesis by blast
qed

subsection \<open>C4\<close>

text \<open>Claim C4. On a well-formed testbench reset returns normally, and: the hardware
  is evaluated exactly ten times, alternating clock high and low, every time with
  the reset input asserted (five ticks); afterwards the reset input is de-asserted;
  the hardware internals are those five clock cycles' result with all 32 registers
  and all 1024 data-memory words overwritten by zero; the reference model is
  reinitialised last (PC 0, registers 0, not halted) and bound to the same buffer,
  whose contents do not change.\<close>

theorem reset_protocol:
  assumes wf: "tb_wf tb" and ok: "eval_ok eval"
  shows "\<exists>tb'. reset eval tb = Some tb' \<and>
     events tb' = events tb @
        concat (map (\<lambda>i. tick_events True (trace tb) (sim_time tb + 2 * of_nat i)) [0..<5]) @
        [RefInit] \<and>
     filter is_RtlEval (drop (length (events tb)) (events tb')) =
        concat (replicate 5 [RtlEval True True, RtlEval False True]) \<and>
     rst (rtl tb') = False \<and>
     rootp (rtl tb') = ((cycle_root eval True ^^ 5) (rootp (rtl tb)))
        \<lparr>regfile_registers := replicate 32 0, dmem_mem := replicate 1024 0\<rparr> \<and>
     ref tb' = \<lparr>pc = 0, regs = replicate 32 0, mem = ref_mem_ptr tb, mem_size = 4096,
               halted = False\<rparr> \<and>
     ref_mem tb' = ref_mem tb \<and> ref_mem_ptr tb' = ref_mem_ptr tb \<and>
     cycles_run tb' = cycles_run tb + 5"
proof -
  have "filter is_RtlEval
      (concat (map (\<lambda>i. tick_events True (trace tb) (sim_time tb + 2 * of_nat i)) [0..<5]) @
        [RefInit]) = concat (replicate 5 [RtlEval True True, RtlEval False True])"
    by (simp add: ticks_filter_eval is_RtlEval_def)
  moreover have "riscv_init (ref tb) (ref_mem_ptr tb) 4096 =
      \<lparr>pc = 0, regs = replicate 32 0, mem = ref_mem_ptr tb, mem_size = 4096, halted = False\<rparr>"
    by (cases "ref tb") (simp add: riscv_init_def)
  ultimately show ?thesis
    unfolding reset_eq[OF wf ok] by simp
qed

theorem reset_protocol_witness:
  "tb_wf tb_init \<and> eval_ok eval_pc4 \<and>
   (\<exists>tb'. reset eval_pc4 (tb_init\<lparr>ref := cpu_zero\<lparr>pc := 12, halted := True\<rparr>\<rparr>) = Some tb' \<and>
      filter is_RtlEval (events tb') =
        [RtlEval True True, RtlEval False True, RtlEval True True, RtlEval False True,
         RtlEval True True, RtlEval False True, RtlEval True True, RtlEval False True,
         RtlEval True True, RtlEval False True] \<and>
      rst (rtl tb') = False \<and>
      regfile_registers (rootp (rtl tb')) = replicate 32 0 \<and>
      dmem_mem (rootp (rtl tb')) = replicate 1024 0 \<and>
      ref tb' = cpu_zero \<and> cycles_run tb' = 5)"
proof -
  let ?tb = "tb_init\<lparr>ref := cpu_zero\<lparr>pc := 12, halted := True\<rparr>\<rparr>"
  have wf: "tb_wf ?tb" using tb_wf_init by (simp add: tb_wf_def)
  from reset_protocol[OF wf eval_ok_pc4] obtain tb' where
    r: "reset eval_pc4 ?tb = Some tb'"
    and e: "filter is_RtlEval (drop (length (events ?tb)) (events tb')) =
        concat (replicate 5 [RtlEval True True, RtlEval False True])"
    and ev: "events tb' = events ?tb @
        concat (map (\<lambda>i. tick_events True (trace ?tb) (sim_time ?tb + 2 * of_nat i)) [0..<5]) @
        [RefInit]"
    and s: "rst (rtl tb') = False"
      "rootp (rtl tb') = ((cycle_root eval_pc4 True ^^ 5) (rootp (rtl ?tb)))
        \<lparr>regfile_registers := replicate 32 0, dmem_mem := replicate 1024 0\<rparr>"
      "ref tb' = \<lparr>pc = 0, regs = replicate 32 0, mem = ref_mem_ptr ?tb, mem_size = 4096,
               halted = False\<rparr>"
      "cycles_run tb' = cycles_run ?tb + 5"
    by blast
  have "filter is_RtlEval (events tb') =
      filter is_RtlEval (events ?tb) @ filter is_RtlEval (drop (length (events ?tb)) (events tb'))"
    unfolding ev by simp
  then have "filter is_RtlEval (events tb') =
        [RtlEval True True, RtlEval False True, RtlEval True True, RtlEval False True,
         RtlEval True True, RtlEval False True, RtlEval True True, RtlEval False True,
         RtlEval True True, RtlEval False True]"
    unfolding e by (simp add: tb_init_def is_RtlEval_def eval_nat_numeral)
  moreover have "ref tb' = cpu_zero" "cycles_run tb' = 5"
    using s(3,4) by (simp_all add: cpu_zero_def tb_init_def)
  moreover have "regfile_registers (rootp (rtl tb')) = replicate 32 0"
    "dmem_mem (rootp (rtl tb')) = replicate 1024 0"
    using s(2) by simp_all
  ultimately show ?thesis using r s(1) tb_wf_init eval_ok_pc4 by blast
qed

subsection \<open>C5\<close>

text \<open>Claim C5. The order of operations in a comparison round is fixed. Each
  iteration of the loop of runTest is \<open>comparison_round\<close> followed by the test of its
  verdict. In such a round the log grows by: eval with clock high, (a waveform
  sample,) eval with clock low, (a waveform sample,) one riscv_step, and then the
  events of compareState, which start with riscv_get_pc and contain no eval and no
  step. The comparison reads the hardware after both evals and the reference model
  after exactly one step.\<close>

theorem round_order:
  "events (comparison_round eval step tb) =
     events tb @
     [RtlEval True (rst (rtl tb))] @ (if trace tb then [VcdDump (sim_time tb)] else []) @
     [RtlEval False (rst (rtl tb))] @ (if trace tb then [VcdDump (sim_time tb + 1)] else []) @
     [RefStep] @
     compare_events (stepAndCompare eval step tb) \<and>
   hd (compare_events (stepAndCompare eval step tb)) = RefGetPc \<and>
   (\<forall>e\<in>set (compare_events (stepAndCompare eval step tb)). is_report e) \<and>
   rootp (rtl (stepAndCompare eval step tb)) =
     eval False (rst (rtl tb)) (eval True (rst (rtl tb)) (rootp (rtl tb))) \<and>
   (ref (stepAndCompare eval step tb), ref_mem (stepAndCompare eval step tb)) =
     step (ref tb) (ref_mem tb) \<and>
   (round_matches eval step tb \<longleftrightarrow>
      cpu_top_pc (rootp (rtl (stepAndCompare eval step tb))) =
        riscv_get_pc (ref (stepAndCompare eval step tb)) \<and>
      (\<forall>i. 1 \<le> i \<and> i \<le> 31 \<longrightarrow>
         regfile_registers (rootp (rtl (stepAndCompare eval step tb))) ! i =
           riscv_get_reg (ref (stepAndCompare eval step tb)) i)) \<and>
   (i < cycles \<longrightarrow>
      runTest_loop eval step i cycles tb =
        (if round_matches eval step tb
         then runTest_loop eval step (i + 1) cycles (comparison_round eval step tb)
         else (False, printState (emit (ErrMismatchAtCycle i)
                                    (comparison_round eval step tb)))))"
proof -
  have 1: "events (comparison_round eval step tb) =
     events tb @
     [RtlEval True (rst (rtl tb))] @ (if trace tb then [VcdDump (sim_time tb)] else []) @
     [RtlEval False (rst (rtl tb))] @ (if trace tb then [VcdDump (sim_time tb + 1)] else []) @
     [RefStep] @
     compare_events (stepAndCompare eval step tb)"
    by (simp add: round_events tick_events_def)
  have 2: "hd (compare_events (stepAndCompare eval step tb)) = RefGetPc"
    by (simp add: compare_events_def)
  have 3: "\<forall>e\<in>set (compare_events (stepAndCompare eval step tb)). is_report e"
    by (simp add: compare_events_report)
  have 4: "rootp (rtl (stepAndCompare eval step tb)) =
     eval False (rst (rtl tb)) (eval True (rst (rtl tb)) (rootp (rtl tb)))"
    by (simp add: stepAndCompare_eq tick_eq cycle_root_def)
  have 5: "(ref (stepAndCompare eval step tb), ref_mem (stepAndCompare eval step tb)) =
     step (ref tb) (ref_mem tb)"
    by (simp add: stepAndCompare_eq)
  have "(\<forall>i\<in>set [1..<32]. getRtlReg (stepAndCompare eval step tb) i =
            riscv_get_reg (ref (stepAndCompare eval step tb)) i) \<longleftrightarrow>
        (\<forall>i. 1 \<le> i \<and> i \<le> 31 \<longrightarrow>
           regfile_registers (rootp (rtl (stepAndCompare eval step tb))) ! i =
             riscv_get_reg (ref (stepAndCompare eval step tb)) i)"
    by (auto simp: getRtlReg_def simp del: upt_rec_numeral)
  then have 6: "round_matches eval step tb \<longleftrightarrow>
      cpu_top_pc (rootp (rtl (stepAndCompare eval step tb))) =
        riscv_get_pc (ref (stepAndCompare eval step tb)) \<and>
      (\<forall>i. 1 \<le> i \<and> i \<le> 31 \<longrightarrow>
         regfile_registers (rootp (rtl (stepAndCompare eval step tb))) ! i =
           riscv_get_reg (ref (stepAndCompare eval step tb)) i)"
    unfolding round_matches_eq by (simp add: getRtlPc_def del: upt_rec_numeral set_upt)
  have 7: "i < cycles \<longrightarrow>
      runTest_loop eval step i cycles tb =
        (if round_matches eval step tb
         then runTest_loop eval step (i + 1) cycles (comparison_round eval step tb)
         else (False, printState (emit (ErrMismatchAtCycle i)
                                    (comparison_round eval step tb))))"
    using runTest_loop_step[of i cycles eval step tb] by blast
  from 1 2 3 4 5 6 7 show ?thesis by blast
qed

theorem round_order_witness:
  "events (comparison_round eval_hold step_hold tb_init) =
     [RefInit, RtlEval True False, RtlEval False False, RefStep, RefGetPc] @
     map RefGetReg [1..<32] \<and>
   round_matches eval_hold step_hold tb_init \<and>
   (0::int) < 1 \<and>
   runTest_loop eval_hold step_hold 0 1 tb_init =
     (True, comparison_round eval_hold step_hold tb_init)"
proof -
  have ag: "states_agree (stepAndCompare eval_hold step_hold tb_init)"
    by (simp add: hold_hold_step states_agree_init)
  have m: "round_matches eval_hold step_hold tb_init"
    by (simp add: round_matches_agree ag)
  have "events (comparison_round eval_hold step_hold tb_init) =
     [RefInit, RtlEval True False, RtlEval False False, RefStep, RefGetPc] @
     map RefGetReg [1..<32]"
  proof -
    have i: "events tb_init = [RefInit]" "rst (rtl tb_init) = False" "trace tb_init = False"
      by (simp_all add: tb_init_def rtl_zero_def)
    from round_order[of eval_hold step_hold tb_init]
    have "events (comparison_round eval_hold step_hold tb_init) =
       events tb_init @
       [RtlEval True (rst (rtl tb_init))] @
       (if trace tb_init then [VcdDump (sim_time tb_init)] else []) @
       [RtlEval False (rst (rtl tb_init))] @
       (if trace tb_init then [VcdDump (sim_time tb_init + 1)] else []) @
       [RefStep] @
       compare_events (stepAndCompare eval_hold step_hold tb_init)"
      by blast
    then show ?thesis
      unfolding compare_events_agree[OF ag] i by simp
  qed
  moreover have "runTest_loop eval_hold step_hold 0 1 tb_init =
     (True, comparison_round eval_hold step_hold tb_init)"
    using round_order[of eval_hold step_hold tb_init 0 1] m
    by (simp add: runTest_loop_done)
  ultimately show ?thesis using m by simp
qed

subsection \<open>C6\<close>

text \<open>Claim C6. The exit status of main is 0 exactly when the counter of failed tests
  is zero at the end, and 1 otherwise. The counter equals the number of FAIL lines
  printed, so the status is non-zero exactly when at least one test failed. With
  well-formed models main always returns, after five tests.\<close>
theorem main_exit_status:
  assumes wf: "root_wf (rootp rtl0)" and ok: "eval_ok eval" and sok: "step_ok step"
  shows "\<exists>code tb. main eval step rtl0 p cpu0 = Some (code, tb) \<and>
     (code = 0 \<longleftrightarrow> tests_failed tb = 0) \<and>
     (code = 1 \<longleftrightarrow> tests_failed tb \<noteq> 0) \<and>
     sint (tests_failed tb) = int (length (filter is_OutFail (events tb))) \<and>
     (code \<noteq> 0 \<longleftrightarrow> (\<exists>name. OutFail name \<in> set (events tb))) \<and>
     sint (tests_passed tb) + sint (tests_failed tb) = 5"
proof -
  define tb0 where "tb0 = main_banner (openTrace
     \<lparr>rtl = rtl0, ref = riscv_init cpu0 p 4096, trace = False,
           sim_time = 0, ref_mem_ptr = p, ref_mem = concat (replicate 1024 [0x13, 0, 0, 0]),
           tests_passed = 0, tests_failed = 0, cycles_run = 0, events = [RefInit]\<rparr>)"
  have wf0: "tb_wf tb0"
    using wf by (simp add: tb0_def main_banner_def openTrace_def emit_def tb_wf_def
        length_concat sum_list_replicate)
  have p0: "tests_passed tb0 = of_nat 0"
    and t0: "tests_failed tb0 = of_nat (length (filter is_OutFail (events tb0)))"
    and f0: "length (filter is_OutFail (events tb0)) = 0"
    by (simp_all add: tb0_def main_banner_def openTrace_def emit_def is_OutFail_def)
  from runTest_summary[OF wf0 ok sok p0 t0, of "''Simple Add''" test_add 4]
  obtain tb1 p1 where
    r1: "runTest eval step ''Simple Add'' test_add 4 tb0 = Some tb1" and wf1: "tb_wf tb1"
    and p1: "tests_passed tb1 = of_nat p1"
    and t1: "tests_failed tb1 = of_nat (length (filter is_OutFail (events tb1)))"
    and s1: "p1 + length (filter is_OutFail (events tb1)) =
               0 + length (filter is_OutFail (events tb0)) + 1"
    by blast
  from runTest_summary[OF wf1 ok sok p1 t1, of "''Subtraction''" test_sub 4]
  obtain tb2 p2 where
    r2: "runTest eval step ''Subtraction'' test_sub 4 tb1 = Some tb2" and wf2: "tb_wf tb2"
    and p2: "tests_passed tb2 = of_nat p2"
    and t2: "tests_failed tb2 = of_nat (length (filter is_OutFail (events tb2)))"
    and s2: "p2 + length (filter is_OutFail (events tb2)) =
               p1 + length (filter is_OutFail (events tb1)) + 1"
    by blast
  from runTest_summary[OF wf2 ok sok p2 t2, of "''Logical Ops''" test_logic 6]
  obtain tb3 p3 where
    r3: "runTest eval step ''Logical Ops'' test_logic 6 tb2 = Some tb3" and wf3: "tb_wf tb3"
    and p3: "tests_passed tb3 = of_nat p3"
    and t3: "tests_failed tb3 = of_nat (length (filter is_OutFail (events tb3)))"
    and s3: "p3 + length (filter is_OutFail (events tb3)) =
               p2 + length (filter is_OutFail (events tb2)) + 1"
    by blast
  from runTest_summary[OF wf3 ok sok p3 t3, of "''Immediate Ops''" test_imm 4]
  obtain tb4 p4 where
    r4: "runTest eval step ''Immediate Ops'' test_imm 4 tb3 = Some tb4" and wf4: "tb_wf tb4"
    and p4: "tests_passed tb4 = of_nat p4"
    and t4: "tests_failed tb4 = of_nat (length (filter is_OutFail (events tb4)))"
    and s4: "p4 + length (filter is_OutFail (events tb4)) =
               p3 + length (filter is_OutFail (events tb3)) + 1"
    by blast
  from runTest_summary[OF wf4 ok sok p4 t4, of "''Shifts''" test_shift 4]
  obtain tb5 p5 where
    r5: "runTest eval step ''Shifts'' test_shift 4 tb4 = Some tb5"
    and p5: "tests_passed tb5 = of_nat p5"
    and t5: "tests_failed tb5 = of_nat (length (filter is_OutFail (events tb5)))"
    and s5: "p5 + length (filter is_OutFail (events tb5)) =
               p4 + length (filter is_OutFail (events tb4)) + 1"
    by blast
  define f5 where "f5 = length (filter is_OutFail (events tb5))"
  have sum: "p5 + f5 = 5"
    using s1 s2 s3 s4 s5 f0 by (simp add: f5_def)
  have sf: "sint (tests_failed tb5) = int f5" and sp: "sint (tests_passed tb5) = int p5"
    using sum by (simp_all add: t5 p5 f5_def[symmetric] sint_of_nat32)
  have z: "tests_failed tb5 = 0 \<longleftrightarrow> f5 = 0"
  proof
    assume "tests_failed tb5 = 0"
    then have "sint (tests_failed tb5) = 0" by simp
    with sf show "f5 = 0" by simp
  next
    assume "f5 = 0"
    then show "tests_failed tb5 = 0" by (simp add: t5 f5_def[symmetric])
  qed
  define line where "line = (if tests_failed tb5 = 0 then ''*** ALL TESTS PASSED ***''
                             else ''*** SOME TESTS FAILED ***'')"
  define code :: int where "code = (if tests_failed tb5 = 0 then 0 else 1)"
  define tb where "tb = emit (OutLine line) (main_summary tb5)"
  have m: "main eval step rtl0 p cpu0 = Some (code, tb)"
    by (simp add: main_def Testbench_new_eq tb0_def[symmetric] r1 r2 r3 r4 r5 Let_def
        code_def tb_def line_def main_summary_def emit_def)
  have f: "tests_failed tb = tests_failed tb5" "tests_passed tb = tests_passed tb5"
    "filter is_OutFail (events tb) = filter is_OutFail (events tb5)"
    by (simp_all add: tb_def main_summary_def emit_def is_OutFail_def)
  have tally: "sint (tests_failed tb) = int (length (filter is_OutFail (events tb)))"
    by (simp add: f sf f5_def)
  have "(\<exists>name. OutFail name \<in> set (events tb)) \<longleftrightarrow> filter is_OutFail (events tb) \<noteq> []"
  proof
    assume "\<exists>name. OutFail name \<in> set (events tb)"
    then obtain name where "OutFail name \<in> set (events tb)" ..
    moreover have "is_OutFail (OutFail name)" by (simp add: is_OutFail_def)
    ultimately show "filter is_OutFail (events tb) \<noteq> []"
      by (auto simp: filter_empty_conv)
  next
    assume "filter is_OutFail (events tb) \<noteq> []"
    then obtain e where e: "e \<in> set (events tb)" "is_OutFail e"
      by (auto simp: filter_empty_conv)
    from is_OutFail_D[OF e(2)] obtain name where "e = OutFail name" ..
    with e show "\<exists>name. OutFail name \<in> set (events tb)" by blast
  qed
  then have ex: "(code \<noteq> 0) \<longleftrightarrow> (\<exists>name. OutFail name \<in> set (events tb))"
    using z by (simp add: code_def f f5_def)
  have "sint (tests_passed tb) + sint (tests_failed tb) = 5"
    using sum by (simp add: f sf sp)
  moreover have "(code = 0 \<longleftrightarrow> tests_failed tb = 0)" "(code = 1 \<longleftrightarrow> tests_failed tb \<noteq> 0)"
    by (simp_all add: code_def f)
  ultimately show ?thesis using m tally ex by blast
qed

theorem main_exit_status_witness:
  "root_wf (rootp rtl_zero) \<and> eval_ok eval_hold \<and> step_ok step_hold \<and> step_ok step_pc4 \<and>
   (\<exists>tb. main eval_hold step_hold rtl_zero 0 cpu_zero = Some (0, tb) \<and>
      tests_failed tb = 0 \<and> tests_passed tb = 5 \<and>
      filter is_OutFail (events tb) = []) \<and>
   (\<exists>tb. main eval_hold step_pc4 rtl_zero 0 cpu_zero = Some (1, tb) \<and>
      tests_failed tb = 5 \<and> tests_passed tb = 0 \<and>
      length (filter is_OutFail (events tb)) = 5)"
proof -
  have wf: "root_wf (rootp rtl_zero)"
    by (simp add: root_wf_def rtl_zero_def)
  from main_all_pass obtain tbp where
    p: "main eval_hold step_hold rtl_zero 0 cpu_zero = Some (0, tbp)"
      "tests_passed tbp = 5" "tests_failed tbp = 0"
    by blast
  from main_exit_status[OF wf eval_ok_hold step_ok_hold, of 0 cpu_zero] p(1)
  have "sint (tests_failed tbp) = int (length (filter is_OutFail (events tbp)))"
    by auto
  with p(3) have fp: "filter is_OutFail (events tbp) = []" by simp
  from main_all_fail obtain tbf where
    f: "main eval_hold step_pc4 rtl_zero 0 cpu_zero = Some (1, tbf)"
      "tests_passed tbf = 0" "tests_failed tbf = 5"
    by blast
  from main_exit_status[OF wf eval_ok_hold step_ok_pc4, of 0 cpu_zero] f(1)
  have "sint (tests_failed tbf) = int (length (filter is_OutFail (events tbf)))"
    by auto
  with f(3) have ff: "length (filter is_OutFail (events tbf)) = 5" by simp
  from wf eval_ok_hold step_ok_hold step_ok_pc4 p fp f ff show ?thesis by blast
qed

subsection \<open>C7\<close>

text \<open>Claim C7. A program of more than 1024 words is cut at the capacity of each
  target: loadProgram returns normally (no write outside an array, no error), the
  hardware instruction memory holds exactly the first 1024 words, the reference
  memory holds exactly their 4096 bytes, and nothing else in the testbench changes;
  the words from index 1024 on have no effect.\<close>
theorem loadProgram_truncates:
  assumes "tb_wf tb" and "1024 < length program"
  shows "loadProgram program tb =
           Some (tb\<lparr>ref_mem := concat (map word_bytes (take 1024 program)),
                    rtl := (rtl tb)\<lparr>rootp := (rootp (rtl tb))\<lparr>imem_mem := take 1024 program\<rparr>\<rparr>\<rparr>)"
proof -
  from loadProgram_spec[OF assms(1), of program] obtain m im where
    r: "loadProgram program tb =
            Some (tb\<lparr>ref_mem := m,
                     rtl := (rtl tb)\<lparr>rootp := (rootp (rtl tb))\<lparr>imem_mem := im\<rparr>\<rparr>\<rparr>)"
      "length m = 4096" "length im = 1024"
      "\<forall>k<4096. m ! k =
             (if k div 4 < length program
              then ucast (drop_bit (8 * (k mod 4)) (program ! (k div 4)) AND 0xFF)
              else ref_mem tb ! k)"
      "\<forall>j<1024. im ! j = (if j < length program then program ! j else 0x13)"
    by blast
  have "im = take 1024 program"
    using r(3,5) assms(2) by (intro nth_equalityI) auto
  moreover have "m = concat (map word_bytes (take 1024 program))"
  proof (rule nth_equalityI)
    show "length m = length (concat (map word_bytes (take 1024 program)))"
      using r(2) assms(2)
      by (simp add: length_concat comp_def word_bytes_def sum_list_triv)
  next
    fix k assume "k < length m"
    then have k: "k < 4096" using r(2) by simp
    then have kd: "k div 4 < 1024" by simp
    have "concat (map word_bytes (take 1024 program)) ! k =
          map word_bytes (take 1024 program) ! (k div 4) ! (k mod 4)"
      using k assms(2) by (intro nth_concat4) (auto simp: word_bytes_def)
    also have "\<dots> = word_bytes (program ! (k div 4)) ! (k mod 4)"
      using kd assms(2) by simp
    also have "\<dots> = ucast (drop_bit (8 * (k mod 4)) (program ! (k div 4)) AND 0xFF)"
      by (rule word_bytes_nth) simp
    finally show "m ! k = concat (map word_bytes (take 1024 program)) ! k"
      using r(4) k kd assms(2) by simp
  qed
  ultimately show ?thesis using r(1) by simp
qed

theorem loadProgram_truncates_witness:
  "tb_wf tb_init \<and> 1024 < length (replicate 1024 (0x13::u32) @ [0xFFFFFFFF]) \<and>
   loadProgram (replicate 1024 0x13 @ [0xFFFFFFFF]) tb_init =
     Some (tb_init\<lparr>ref_mem := concat (map word_bytes (replicate 1024 0x13)),
                    rtl := (rtl tb_init)\<lparr>rootp :=
                      (rootp (rtl tb_init))\<lparr>imem_mem := replicate 1024 0x13\<rparr>\<rparr>\<rparr>)"
  using loadProgram_truncates[OF tb_wf_init, of "replicate 1024 0x13 @ [0xFFFFFFFF]"]
  by (simp add: tb_wf_init)

subsection \<open>C8\<close>

text \<open>Claim C8. loadProgram stores every program word within capacity into the
  reference memory little-endian: word \<open>i\<close> goes to bytes \<open>4*i\<close> to \<open>4*i+3\<close>, least
  significant byte first.\<close>

theorem loadProgram_little_endian:
  assumes wf: "tb_wf tb" and i: "i < length program" "i < 1024"
  shows "\<exists>tb'. loadProgram program tb = Some tb' \<and>
     ref_mem tb' ! (4 * i) = ucast (drop_bit 0 (program ! i) AND 0xFF) \<and>
     ref_mem tb' ! (4 * i + 1) = ucast (drop_bit 8 (program ! i) AND 0xFF) \<and>
     ref_mem tb' ! (4 * i + 2) = ucast (drop_bit 16 (program ! i) AND 0xFF) \<and>
     ref_mem tb' ! (4 * i + 3) = ucast (drop_bit 24 (program ! i) AND 0xFF)"
proof -
  from loadProgram_spec[OF wf, of program] obtain m im where
    r: "loadProgram program tb =
            Some (tb\<lparr>ref_mem := m,
                     rtl := (rtl tb)\<lparr>rootp := (rootp (rtl tb))\<lparr>imem_mem := im\<rparr>\<rparr>\<rparr>)"
      "\<forall>k<4096. m ! k =
             (if k div 4 < length program
              then ucast (drop_bit (8 * (k mod 4)) (program ! (k div 4)) AND 0xFF)
              else ref_mem tb ! k)"
    by blast
  have b: "m ! (4 * i + j) = ucast (drop_bit (8 * j) (program ! i) AND 0xFF)" if "j < 4" for j
  proof -
    have "4 * i + j < 4096" using i(2) that by simp
    moreover have "(4 * i + j) div 4 = i" "(4 * i + j) mod 4 = j" using that by simp_all
    ultimately show ?thesis using r(2) i(1) by simp
  qed
  from b[of 0] b[of 1] b[of 2] b[of 3] show ?thesis
    unfolding r(1) by simp
qed

theorem loadProgram_little_endian_witness:
  "tb_wf tb_init \<and> 2 < length test_add \<and> (2::nat) < 1024 \<and>
   (\<exists>tb'. loadProgram test_add tb_init = Some tb' \<and>
      ref_mem tb' ! 8 = 0xB3 \<and> ref_mem tb' ! 9 = 0x81 \<and>
      ref_mem tb' ! 10 = 0x20 \<and> ref_mem tb' ! 11 = 0x00)"
proof -
  have l: "2 < length test_add" "(2::nat) < 1024" by (simp_all add: test_add_def)
  from loadProgram_little_endian[OF tb_wf_init l] l tb_wf_init
  show ?thesis by (simp add: test_add_def)
qed

subsection \<open>C9\<close>

text \<open>Claim C9. Register 0 reads as zero on both sides. getRtlReg returns 0 for
  index 0 whatever the hardware register array holds. In the reference model's
  interface a read of register 0 returns zero in every processor state, hence after
  any number of steps of any step function; a write to register 0 leaves the
  processor state unchanged; and after any sequence of register writes, to register
  0 or to others, entry 0 of the register array is what it was and register 0 still
  reads as zero.\<close>
theorem register_zero_reads_zero:
  "getRtlReg tb 0 = 0 \<and>
   getRtlReg (tb\<lparr>rtl := (rtl tb)\<lparr>rootp := (rootp (rtl tb))\<lparr>regfile_registers := rs\<rparr>\<rparr>\<rparr>) 0 = 0 \<and>
   riscv_get_reg cpu 0 = 0 \<and>
   riscv_set_reg cpu 0 v = cpu \<and>
   riscv_get_reg (riscv_set_reg cpu 0 v) 0 = 0 \<and>
   riscv_get_reg (fst (((\<lambda>(c, m). step c m) ^^ n) (cpu, m))) 0 = 0 \<and>
   regs (fold (\<lambda>(r, x) c. riscv_set_reg c r x) ws cpu) ! 0 = regs cpu ! 0 \<and>
   riscv_get_reg (fold (\<lambda>(r, x) c. riscv_set_reg c r x) ws cpu) 0 = 0"
proof -
  have "regs (fold (\<lambda>(r, x) c. riscv_set_reg c r x) ws cpu) ! 0 = regs cpu ! 0"
  proof (induction ws arbitrary: cpu)
    case Nil
    show ?case by simp
  next
    case (Cons w ws)
    obtain r x where w: "w = (r, x)" by (cases w)
    have "regs (riscv_set_reg cpu r x) ! 0 = regs cpu ! 0"
      by (simp add: riscv_set_reg_def)
    with Cons.IH[of "riscv_set_reg cpu r x"] show ?case
      by (simp add: w)
  qed
  then show ?thesis
    by (simp add: getRtlReg_def riscv_get_reg_def riscv_set_reg_def)
qed

subsection \<open>C10\<close>

text \<open>Claim C10. The cycle counter counts the reset ticks too. The counter is a C++
  \<^verbatim>\<open>int\<close>. Every tick adds one to it in 32-bit arithmetic, which is one more in
  signed value unless the counter is at \<open>INT_MAX\<close>; the summary of main prints the
  counter as its total; and a call of runTest adds 5 (the ticks of its reset) plus
  the number \<open>n\<close> of comparison rounds it ran, which is the number of calls of
  riscv_step it made: \<open>cycles\<close> when all rounds matched, \<open>k + 1\<close> when round \<open>k\<close> was
  the first mismatch. In signed value the counter grows by exactly \<open>5 + n\<close> whenever
  that does not take it beyond \<open>INT_MAX\<close>.\<close>
theorem cycles_run_counts_reset_ticks:
  assumes wf: "tb_wf tb" and ok: "eval_ok eval"
  shows "cycles_run (tick eval tb) = cycles_run tb + 1 \<and>
     (sint (cycles_run tb) < INT_MAX \<longrightarrow>
        sint (cycles_run (tick eval tb)) = sint (cycles_run tb) + 1) \<and>
     OutCount ''Total Cycles: '' (sint (cycles_run tb)) \<in> set (events (main_summary tb)) \<and>
     (\<exists>tb0 tb' n.
        prepared eval name program tb = Some tb0 \<and>
        runTest eval step name program cycles tb = Some tb' \<and>
        occurrences RefStep (events tb') = occurrences RefStep (events tb) + n \<and>
        cycles_run tb' = cycles_run tb + 5 + of_nat n \<and>
        (sint (cycles_run tb) + 5 + int n \<le> INT_MAX \<longrightarrow>
           sint (cycles_run tb') = sint (cycles_run tb) + 5 + int n) \<and>
        ((\<forall>k<nat cycles. round_matches eval step (after_rounds eval step k tb0)) \<longrightarrow>
           n = nat cycles) \<and>
        (\<forall>k<nat cycles.
           (\<forall>j<k. round_matches eval step (after_rounds eval step j tb0)) \<and>
           \<not> round_matches eval step (after_rounds eval step k tb0) \<longrightarrow>
           n = k + 1))"
proof -
  from runTest_outcome[OF wf ok, of name program step cycles] obtain tb0 where
    p: "prepared eval name program tb = Some tb0"
    and fr: "cycles_run tb0 = cycles_run tb + 5"
      "occurrences RefStep (events tb0) = occurrences RefStep (events tb)"
    and out: "runTest eval step name program cycles tb =
         Some (printState ((emit (OutPass name) (after_rounds eval step (nat cycles) tb0))
                            \<lparr>tests_passed := tests_passed tb0 + 1\<rparr>)) \<or>
       (\<exists>k<nat cycles. runTest eval step name program cycles tb =
         Some (printState ((emit (OutFail name)
                (printState (emit (ErrMismatchAtCycle (int k))
                   (after_rounds eval step (Suc k) tb0))))
                            \<lparr>tests_failed := tests_failed tb0 + 1\<rparr>)))"
    by blast
  let ?ok = "\<lambda>k. round_matches eval step (after_rounds eval step k tb0)"
  from out obtain tb' n where run: "runTest eval step name program cycles tb = Some tb'"
    and occ: "occurrences RefStep (events tb') = occurrences RefStep (events tb) + n"
    and cyc: "cycles_run tb' = cycles_run tb + 5 + of_nat n"
  proof (elim disjE exE conjE)
    assume r: "runTest eval step name program cycles tb =
         Some (printState ((emit (OutPass name) (after_rounds eval step (nat cycles) tb0))
                            \<lparr>tests_passed := tests_passed tb0 + 1\<rparr>))"
    assume t: "\<And>tb' n. runTest eval step name program cycles tb = Some tb' \<Longrightarrow>
      occurrences RefStep (events tb') = occurrences RefStep (events tb) + n \<Longrightarrow>
      cycles_run tb' = cycles_run tb + 5 + of_nat n \<Longrightarrow> thesis"
    show thesis
      by (rule t[OF r, of "nat cycles"])
         (simp_all add: pass_result_frame after_rounds_frame fr)
  next
    fix k
    assume r: "runTest eval step name program cycles tb =
         Some (printState ((emit (OutFail name)
                (printState (emit (ErrMismatchAtCycle (int k))
                   (after_rounds eval step (Suc k) tb0))))
                            \<lparr>tests_failed := tests_failed tb0 + 1\<rparr>))"
    assume t: "\<And>tb' n. runTest eval step name program cycles tb = Some tb' \<Longrightarrow>
      occurrences RefStep (events tb') = occurrences RefStep (events tb) + n \<Longrightarrow>
      cycles_run tb' = cycles_run tb + 5 + of_nat n \<Longrightarrow> thesis"
    show thesis
      by (rule t[OF r, of "Suc k"])
         (simp_all add: fail_result_frame after_rounds_frame fr)
  qed
  have c0: "sint (cycles_run tb) + 5 + int n \<le> INT_MAX \<longrightarrow>
           sint (cycles_run tb') = sint (cycles_run tb) + 5 + int n"
  proof
    assume b: "sint (cycles_run tb) + 5 + int n \<le> INT_MAX"
    have "cycles_run tb' = cycles_run tb + of_nat (5 + n)"
      by (simp add: cyc)
    moreover have "sint (cycles_run tb) + int (5 + n) \<le> INT_MAX" using b by simp
    ultimately have "sint (cycles_run tb') = sint (cycles_run tb) + int (5 + n)"
      by (simp only: sint_add_of_nat32)
    then show "sint (cycles_run tb') = sint (cycles_run tb) + 5 + int n" by simp
  qed
  have c1: "(\<forall>k<nat cycles. ?ok k) \<longrightarrow> n = nat cycles"
  proof
    assume "\<forall>k<nat cycles. ?ok k"
    from runTest_pass[OF p this] run
    have "occurrences RefStep (events tb') = occurrences RefStep (events tb) + nat cycles"
      by (simp add: pass_result_frame after_rounds_frame fr)
    with occ show "n = nat cycles" by simp
  qed
  have c2: "\<forall>k<nat cycles. (\<forall>j<k. ?ok j) \<and> \<not> ?ok k \<longrightarrow> n = k + 1"
  proof (intro allI impI, elim conjE)
    fix k assume "k < nat cycles" "\<forall>j<k. ?ok j" "\<not> ?ok k"
    from runTest_fail[OF p this] run
    have "occurrences RefStep (events tb') = occurrences RefStep (events tb) + Suc k"
      by (simp add: fail_result_frame after_rounds_frame fr)
    with occ show "n = k + 1" by simp
  qed
  have t1: "cycles_run (tick eval tb) = cycles_run tb + 1"
    by (simp add: tick_eq)
  have t2: "sint (cycles_run tb) < INT_MAX \<longrightarrow>
        sint (cycles_run (tick eval tb)) = sint (cycles_run tb) + 1"
    by (simp add: t1 sint_succ32)
  have t3: "OutCount ''Total Cycles: '' (sint (cycles_run tb)) \<in> set (events (main_summary tb))"
    by (simp add: main_summary_def emit_def)
  show ?thesis
    by (intro conjI exI[of _ tb0] exI[of _ tb'] exI[of _ n])
       (rule t1 t2 t3 p run occ cyc c0 c1 c2)+
qed

theorem cycles_run_counts_reset_ticks_witness:
  "tb_wf tb_init \<and> eval_ok eval_hold \<and>
   cycles_run (tick eval_hold tb_init) = 1 \<and>
   sint (cycles_run (tick eval_hold tb_init)) = 1 \<and>
   sint (cycles_run (tick eval_hold (tb_init\<lparr>cycles_run := 0x7FFFFFFF\<rparr>))) = - 2147483648 \<and>
   (\<exists>tb0 tb'.
      prepared eval_hold ''Simple Add'' test_add tb_init = Some tb0 \<and>
      list_all (\<lambda>k. round_matches eval_hold step_hold (after_rounds eval_hold step_hold k tb0))
        [0..<4] \<and>
      runTest eval_hold step_hold ''Simple Add'' test_add 4 tb_init = Some tb' \<and>
      occurrences RefStep (events tb') = 4 \<and> cycles_run tb' = 9 \<and>
      sint (cycles_run tb') = 9) \<and>
   (\<exists>tb0 tb'.
      prepared eval_hold ''Simple Add'' test_add tb_init = Some tb0 \<and>
      \<not> round_matches eval_hold step_pc4 (after_rounds eval_hold step_pc4 0 tb0) \<and>
      runTest eval_hold step_pc4 ''Simple Add'' test_add 4 tb_init = Some tb' \<and>
      occurrences RefStep (events tb') = 1 \<and> cycles_run tb' = 6 \<and>
      sint (cycles_run tb') = 6)"
proof -
  have init: "cycles_run tb_init = 0" "occurrences RefStep (events tb_init) = 0"
    by (simp_all add: tb_init_def)
  have T: "cycles_run (tick eval_hold tb_init) = 1"
    "sint (cycles_run (tick eval_hold tb_init)) = 1"
    using cycles_run_counts_reset_ticks[OF tb_wf_init eval_ok_hold] init by simp_all
  have wf': "tb_wf (tb_init\<lparr>cycles_run := 0x7FFFFFFF\<rparr>)"
    using tb_wf_init by (simp add: tb_wf_def)
  have W: "sint (cycles_run (tick eval_hold (tb_init\<lparr>cycles_run := 0x7FFFFFFF\<rparr>))) =
      - 2147483648"
    using cycles_run_counts_reset_ticks[OF wf' eval_ok_hold] by simp
  have A: "\<exists>tb0 tb'.
      prepared eval_hold ''Simple Add'' test_add tb_init = Some tb0 \<and>
      list_all (\<lambda>k. round_matches eval_hold step_hold (after_rounds eval_hold step_hold k tb0))
        [0..<4] \<and>
      runTest eval_hold step_hold ''Simple Add'' test_add 4 tb_init = Some tb' \<and>
      occurrences RefStep (events tb') = 4 \<and> cycles_run tb' = 9 \<and>
      sint (cycles_run tb') = 9"
  proof -
    from cycles_run_counts_reset_ticks[OF tb_wf_init eval_ok_hold,
        of "''Simple Add''" test_add step_hold 4]
    obtain tb0 tb' n where
      p: "prepared eval_hold ''Simple Add'' test_add tb_init = Some tb0"
      and r: "runTest eval_hold step_hold ''Simple Add'' test_add 4 tb_init = Some tb'"
      and o: "occurrences RefStep (events tb') = occurrences RefStep (events tb_init) + n"
      and c: "cycles_run tb' = cycles_run tb_init + 5 + of_nat n"
      and s: "sint (cycles_run tb_init) + 5 + int n \<le> INT_MAX \<longrightarrow>
           sint (cycles_run tb') = sint (cycles_run tb_init) + 5 + int n"
      and pass: "(\<forall>k<nat 4. round_matches eval_hold step_hold
                     (after_rounds eval_hold step_hold k tb0)) \<longrightarrow> n = nat 4"
      by blast
    have ok: "round_matches eval_hold step_hold (after_rounds eval_hold step_hold k tb0)" for k
      by (rule hold_hold_matches[OF hold_prepared_agree[OF p]])
    then have l: "list_all (\<lambda>k. round_matches eval_hold step_hold
                   (after_rounds eval_hold step_hold k tb0)) [0..<4]"
      by (simp add: list_all_iff)
    from pass ok have n: "n = 4" by simp
    have g: "occurrences RefStep (events tb') = 4" "cycles_run tb' = 9"
      "sint (cycles_run tb') = 9"
      using o c s by (simp_all add: n init)
    with p r l show ?thesis by blast
  qed
  have B: "\<exists>tb0 tb'.
      prepared eval_hold ''Simple Add'' test_add tb_init = Some tb0 \<and>
      \<not> round_matches eval_hold step_pc4 (after_rounds eval_hold step_pc4 0 tb0) \<and>
      runTest eval_hold step_pc4 ''Simple Add'' test_add 4 tb_init = Some tb' \<and>
      occurrences RefStep (events tb') = 1 \<and> cycles_run tb' = 6 \<and>
      sint (cycles_run tb') = 6"
  proof -
    from cycles_run_counts_reset_ticks[OF tb_wf_init eval_ok_hold,
        of "''Simple Add''" test_add step_pc4 4]
    obtain tb0 tb' n where
      p: "prepared eval_hold ''Simple Add'' test_add tb_init = Some tb0"
      and r: "runTest eval_hold step_pc4 ''Simple Add'' test_add 4 tb_init = Some tb'"
      and o: "occurrences RefStep (events tb') = occurrences RefStep (events tb_init) + n"
      and c: "cycles_run tb' = cycles_run tb_init + 5 + of_nat n"
      and s: "sint (cycles_run tb_init) + 5 + int n \<le> INT_MAX \<longrightarrow>
           sint (cycles_run tb') = sint (cycles_run tb_init) + 5 + int n"
      and fail: "\<forall>k<nat 4.
           (\<forall>j<k. round_matches eval_hold step_pc4 (after_rounds eval_hold step_pc4 j tb0)) \<and>
           \<not> round_matches eval_hold step_pc4 (after_rounds eval_hold step_pc4 k tb0) \<longrightarrow>
           n = k + 1"
      by blast
    have bad: "\<not> round_matches eval_hold step_pc4 (after_rounds eval_hold step_pc4 0 tb0)"
      using hold_pc4_mismatch[OF hold_prepared_agree[OF p]] by simp
    have "(0::nat) < nat 4" by simp
    moreover have "(\<forall>j<0. round_matches eval_hold step_pc4 (after_rounds eval_hold step_pc4 j tb0)) \<and>
        \<not> round_matches eval_hold step_pc4 (after_rounds eval_hold step_pc4 0 tb0)"
      using bad by simp
    ultimately have "n = 0 + 1" using fail by blast
    then have n: "n = 1" by simp
    have g: "occurrences RefStep (events tb') = 1" "cycles_run tb' = 6"
      "sint (cycles_run tb') = 6"
      using o c s by (simp_all add: n init)
    with p r bad show ?thesis by blast
  qed
  from T W A B tb_wf_init eval_ok_hold show ?thesis by blast
qed

end
